theory Spec2Isabelle
  imports Main "HOL-Library.Word"
begin

section \<open>AnalyticsMesh: a shallow embedding of the node, its committer and its gossip client\<close>

text \<open>
  The development follows \<^verbatim>\<open>src/analytics_mesh.py\<close>, \<^verbatim>\<open>src/main.py\<close> and
  \<^verbatim>\<open>src/thrift_helper.py\<close>. Python exceptions are values of the type \<open>exn\<close>; a method of
  the node takes the node and the outside world and returns its outcome together with the
  node and the world it leaves behind. The sketch library (\<^verbatim>\<open>datasketches\<close>), the operating
  system and the network are not part of the repository: the library is a parameter, the
  operating system and the network are a \<open>world\<close> record whose primitives log what they are
  asked to do and fail when the world's fault schedule says so.
\<close>

subsection \<open>Values\<close>

type_synonym bytes = "8 word list"

datatype DurabilityLevel = STRICT | DELAYED | VOLATILE

text \<open>The three runtime types \<^verbatim>\<open>update_sketch\<close> accepts (a float is its 64-bit pattern).\<close>

datatype datum = DInt int | DFloat "64 word" | DStr string

text \<open>The messages of the \<^verbatim>\<open>ValueError\<close>s and argument errors, with the values they format.\<close>

datatype reason =
    HostEmpty
  | PortNotInteger string
  | PortOutOfRange int
  | AtomicityWithDurability DurabilityLevel
  | SketchFileRequired DurabilityLevel
  | SketchFileNameEmpty
  | PathIsDirectory string
  | FileNotWritable string
  | DirNotWritable string

datatype exn =
    ValueError reason
  | ArgumentTypeError reason
  | ParserError reason
  | TypeError
  | FileNotFoundError
  | FileExistsError
  | PermissionError
  | OSError
  | KeyboardInterrupt
  | DeserializeError
  | TTransportException
  | TApplicationException

text \<open>
  The part of \<^verbatim>\<open>datasketches\<close> the node calls. \<open>hll_sketch k\<close> and \<open>hll_union k\<close> are the
  constructors, \<open>deserialize\<close> is \<^verbatim>\<open>hll_sketch.deserialize\<close>, which raises on bytes it does
  not accept (\<open>None\<close>).
\<close>

record ('sk, 'u) datasketches =
  hll_sketch :: "nat \<Rightarrow> 'sk"
  sk_update :: "'sk \<Rightarrow> datum \<Rightarrow> 'sk"
  serialize_compact :: "'sk \<Rightarrow> bytes"
  deserialize :: "bytes \<Rightarrow> 'sk option"
  hll_union :: "nat \<Rightarrow> 'u"
  union_update :: "'u \<Rightarrow> 'sk \<Rightarrow> 'u"
  get_result :: "'u \<Rightarrow> 'sk"

definition LOG_K :: nat where
  "LOG_K = 21"

definition ANTI_ENTROPY_MAX_CLIENTS :: nat where
  "ANTI_ENTROPY_MAX_CLIENTS = 3"

datatype handler = SIG_DFL | SIG_IGN | PyHandler nat | MeshSignalHandler

subsection \<open>The node\<close>

text \<open>
  The fields of \<^verbatim>\<open>AnalyticsMesh\<close>. A thread field holds whether the thread was started,
  \<open>server\<close> whether the server thread has stored its server object; \<open>prev_signal_handlers\<close>
  is a dict, kept in insertion order.
\<close>

record 'sk mesh =
  enable_server :: bool
  enable_client :: bool
  server_address :: "(string \<times> int) option"
  client_addresses :: "(string \<times> int) list option"
  sketch_file :: "string option"
  durability_level :: DurabilityLevel
  atomicity :: bool
  sketch_file_dirname :: "string option"
  sketch_file_basename :: "string option"
  enable_committer :: bool
  continue_client :: bool
  continue_committer :: bool
  is_dirty :: bool
  server_thread :: bool
  client_thread :: bool
  committer_thread :: bool
  prev_signal_handlers :: "(int \<times> handler) list"
  server :: bool
  sketch :: 'sk

text \<open>The arguments of \<^verbatim>\<open>AnalyticsMesh.__init__\<close>; \<open>None\<close> is Python's \<^verbatim>\<open>None\<close>.\<close>

record init_args =
  arg_enable_server :: bool
  arg_enable_client :: bool
  arg_server_address :: "(string \<times> int) option"
  arg_client_addresses :: "(string \<times> int) list option"
  arg_sketch_file :: "string option"
  arg_durability_level :: DurabilityLevel
  arg_atomicity :: "bool option"

text \<open>What \<^verbatim>\<open>os.path.isdir\<close>, \<^verbatim>\<open>os.path.exists\<close> and \<^verbatim>\<open>os.access(_, os.W_OK)\<close> answer.\<close>

record fs_query =
  isdir :: "string \<Rightarrow> bool"
  path_exists :: "string \<Rightarrow> bool"
  access_w :: "string \<Rightarrow> bool"

text \<open>\<^verbatim>\<open>posixpath.split\<close>: cut after the last slash, then strip the head's trailing slashes
  unless the head is slashes only.\<close>

definition rstrip_sep :: "string \<Rightarrow> string" where
  "rstrip_sep s = rev (dropWhile (\<lambda>c. c = CHR ''/'') (rev s))"

definition os_path_split :: "string \<Rightarrow> string \<times> string" where
  "os_path_split p =
     (let tail = rev (takeWhile (\<lambda>c. c \<noteq> CHR ''/'') (rev p));
          head = take (length p - length tail) p
      in (if head \<noteq> [] \<and> head \<noteq> replicate (length head) (CHR ''/'')
          then rstrip_sep head else head, tail))"

text \<open>Python's \<^verbatim>\<open>a or b\<close> on an optional boolean \<open>a\<close>: \<^verbatim>\<open>None\<close> and \<^verbatim>\<open>False\<close> both give \<open>b\<close>.\<close>

definition py_or :: "bool option \<Rightarrow> bool \<Rightarrow> bool" where
  "py_or a b = (case a of Some True \<Rightarrow> True | _ \<Rightarrow> b)"

text \<open>\<^verbatim>\<open>dirname or "."\<close> on a string.\<close>

definition or_dot :: "string \<Rightarrow> string" where
  "or_dot d = (if d = [] then ''.'' else d)"

text \<open>Lines 51-58: the check of the server address.\<close>

definition check_server_address :: "(string \<times> int) option \<Rightarrow> exn option" where
  "check_server_address a =
     (case a of
        None \<Rightarrow> None
      | Some (host, port) \<Rightarrow>
          if host = [] then Some (ValueError HostEmpty)
          else if \<not> (0 \<le> port \<and> port \<le> 65535) then Some (ValueError (PortOutOfRange port))
          else None)"

text \<open>Lines 80-98: the checks of the sketch file's path.\<close>

definition check_sketch_file :: "fs_query \<Rightarrow> string \<Rightarrow> exn option" where
  "check_sketch_file fs f =
     (let dirname = or_dot (fst (os_path_split f)); basename = snd (os_path_split f)
      in if basename = [] then Some (ValueError SketchFileNameEmpty)
         else if isdir fs f then Some (ValueError (PathIsDirectory f))
         else if path_exists fs f \<and> \<not> access_w fs f then Some (ValueError (FileNotWritable f))
         else if \<not> access_w fs dirname then Some (ValueError (DirNotWritable dirname))
         else None)"

text \<open>\<^verbatim>\<open>AnalyticsMesh.__init__\<close>, in the order of the source.\<close>

definition AnalyticsMesh_init ::
  "('sk, 'u) datasketches \<Rightarrow> fs_query \<Rightarrow> init_args \<Rightarrow> exn + 'sk mesh" where
  "AnalyticsMesh_init lib fs a =
     (case check_server_address (arg_server_address a) of
        Some e \<Rightarrow> Inl e
      | None \<Rightarrow>
          let atom = py_or (arg_atomicity a) (arg_durability_level a \<noteq> VOLATILE) in
          if arg_durability_level a = VOLATILE \<and> atom
            then Inl (ValueError (AtomicityWithDurability (arg_durability_level a)))
          else if arg_durability_level a \<noteq> VOLATILE \<and> arg_sketch_file a = None
            then Inl (ValueError (SketchFileRequired (arg_durability_level a)))
          else
            (case (case arg_sketch_file a of None \<Rightarrow> None | Some f \<Rightarrow> check_sketch_file fs f) of
               Some e \<Rightarrow> Inl e
             | None \<Rightarrow>
                 Inr \<lparr> enable_server = arg_enable_server a,
                       enable_client = arg_enable_client a,
                       server_address = arg_server_address a,
                       client_addresses = arg_client_addresses a,
                       sketch_file = arg_sketch_file a,
                       durability_level = arg_durability_level a,
                       atomicity = atom,
                       sketch_file_dirname =
                         map_option (\<lambda>f. or_dot (fst (os_path_split f))) (arg_sketch_file a),
                       sketch_file_basename =
                         map_option (\<lambda>f. snd (os_path_split f)) (arg_sketch_file a),
                       enable_committer = (arg_durability_level a = DELAYED),
                       continue_client = arg_enable_client a,
                       continue_committer = (arg_durability_level a = DELAYED),
                       is_dirty = False,
                       server_thread = False,
                       client_thread = False,
                       committer_thread = False,
                       prev_signal_handlers = [],
                       server = False,
                       sketch = hll_sketch lib LOG_K \<rparr>))"

subsection \<open>The command line (\<^verbatim>\<open>main.py\<close>)\<close>

text \<open>The namespace \<^verbatim>\<open>parse_args\<close> works on once \<^verbatim>\<open>parser.parse_args()\<close> has returned.\<close>

record namespace =
  ns_sketch_file :: "string option"
  ns_enable_server :: bool
  ns_enable_client :: bool
  ns_server_address :: "string \<times> int"
  ns_client_addresses :: "(string \<times> int) list"
  ns_durability_level :: DurabilityLevel
  ns_atomicity :: "bool option"

text \<open>Lines 168-184 of \<^verbatim>\<open>parse_args\<close>; \<^verbatim>\<open>parser.error\<close> ends the process with status 2.\<close>

definition parse_args_checks :: "namespace \<Rightarrow> exn + namespace" where
  "parse_args_checks args =
     (let atom = py_or (ns_atomicity args) (ns_durability_level args \<noteq> VOLATILE);
          args' = args\<lparr>ns_atomicity := Some atom\<rparr>
      in if ns_durability_level args' = VOLATILE
         then (if atom then Inl (ParserError (AtomicityWithDurability (ns_durability_level args')))
               else Inr args')
         else (if ns_sketch_file args' = None
               then Inl (ParserError (SketchFileRequired (ns_durability_level args')))
               else Inr args'))"

text \<open>The call of the constructor in \<^verbatim>\<open>main\<close> (lines 34-42).\<close>

definition main_init_args :: "namespace \<Rightarrow> init_args" where
  "main_init_args args =
     \<lparr> arg_enable_server = ns_enable_server args,
       arg_enable_client = ns_enable_client args,
       arg_server_address = Some (ns_server_address args),
       arg_client_addresses = Some (ns_client_addresses args),
       arg_sketch_file = ns_sketch_file args,
       arg_durability_level = ns_durability_level args,
       arg_atomicity = ns_atomicity args \<rparr>"

text \<open>\<^verbatim>\<open>str.rpartition(":")\<close> and \<^verbatim>\<open>str.strip("[]")\<close>.\<close>

definition rpartition_colon :: "string \<Rightarrow> string \<times> string" where
  "rpartition_colon s =
     (if CHR '':'' \<in> set s
      then (let tail = rev (takeWhile (\<lambda>c. c \<noteq> CHR '':'') (rev s))
            in (take (length s - length tail - 1) s, tail))
      else ([], s))"

definition strip_brackets :: "string \<Rightarrow> string" where
  "strip_brackets s =
     (let br = (\<lambda>c. c = CHR ''['' \<or> c = CHR '']'')
      in rev (dropWhile br (rev (dropWhile br s))))"

text \<open>\<^verbatim>\<open>parse_address\<close>; \<open>py_int\<close> is Python's \<^verbatim>\<open>int\<close> on a string, \<open>None\<close> where it raises
  \<^verbatim>\<open>ValueError\<close>.\<close>

definition parse_address :: "(string \<Rightarrow> int option) \<Rightarrow> string \<Rightarrow> exn + (string \<times> int)" where
  "parse_address py_int address_str =
     (let host = strip_brackets (fst (rpartition_colon address_str));
          port_str = snd (rpartition_colon address_str)
      in if host = [] then Inl (ArgumentTypeError HostEmpty)
         else (case py_int port_str of
                 None \<Rightarrow> Inl (ArgumentTypeError (PortNotInteger port_str))
               | Some port_int \<Rightarrow>
                   if \<not> (0 \<le> port_int \<and> port_int \<le> 65535)
                   then Inl (ArgumentTypeError (PortOutOfRange port_int))
                   else Inr (host, port_int)))"

subsection \<open>The outside world\<close>

text \<open>
  The calls the node makes to the operating system, to \<^verbatim>\<open>tempfile\<close>, to \<^verbatim>\<open>logging\<close>, to
  \<^verbatim>\<open>signal\<close>, to \<^verbatim>\<open>threading\<close> and to the Thrift transport. Paths are compared as the
  strings the code passes.
\<close>

datatype io_event =
    EvOpenRead string
  | EvRead string
  | EvOpenWrite string
  | EvMkstemp string string string
  | EvWrite string bytes
  | EvFlush string
  | EvFsync string
  | EvClose string
  | EvReplace string string
  | EvOpenDir string
  | EvRemove string
  | EvLogWarning string
  | EvLogDebug
  | EvTransportOpen string int
  | EvTransportClose string int
  | EvRpcPush string int bytes
  | EvRpcPull string int
  | EvSignal int handler
  | EvKill int
  | EvThreadStart string
  | EvServerStop
  | EvSleep

text \<open>
  \<open>files\<close> holds the content of every regular file, \<open>trace\<close> every call made so far with
  the error it raised (\<open>None\<close> when it succeeded). \<open>faults\<close> is the schedule of failures: one
  entry per call still to come, \<open>Some e\<close> when that call is to raise \<open>e\<close>. \<open>rand_names\<close> are
  the random name parts \<^verbatim>\<open>tempfile\<close> will draw, \<open>tempdir\<close> its default directory,
  \<open>rand_idx\<close> the numbers \<^verbatim>\<open>random.sample\<close> will draw, \<open>transports\<close> the peers whose
  transport is open, \<open>pull_replies\<close> the payloads the peers will answer to \<^verbatim>\<open>pull\<close>, and
  \<open>sig_handlers\<close> the installed signal handlers.
\<close>

record world =
  files :: "string \<rightharpoonup> bytes"
  trace :: "(io_event \<times> exn option) list"
  faults :: "exn option list"
  rand_names :: "string list"
  tempdir :: string
  rand_idx :: "nat list"
  transports :: "(string \<times> int) list"
  pull_replies :: "bytes list"
  sig_handlers :: "int \<Rightarrow> handler"

type_synonym 'a io = "world \<Rightarrow> (exn + 'a) \<times> world"

definition io_return :: "'a \<Rightarrow> 'a io" where
  "io_return x w = (Inr x, w)"

definition io_raise :: "exn \<Rightarrow> 'a io" where
  "io_raise e w = (Inl e, w)"

definition io_bind :: "'a io \<Rightarrow> ('a \<Rightarrow> 'b io) \<Rightarrow> 'b io" where
  "io_bind p f w = (case p w of (Inl e, w1) \<Rightarrow> (Inl e, w1) | (Inr x, w1) \<Rightarrow> f x w1)"

text \<open>\<^verbatim>\<open>try: p finally: c\<close>, and the exit of a \<^verbatim>\<open>with\<close> block: \<open>c\<close> always runs, and an
  error of \<open>c\<close> replaces the outcome of \<open>p\<close>.\<close>

definition io_finally :: "'a io \<Rightarrow> unit io \<Rightarrow> 'a io" where
  "io_finally p c w =
     (case p w of
        (r, w1) \<Rightarrow> (case c w1 of (Inl e, w2) \<Rightarrow> (Inl e, w2) | (Inr _, w2) \<Rightarrow> (r, w2)))"

definition next_fault :: "world \<Rightarrow> exn option" where
  "next_fault w = (case faults w of [] \<Rightarrow> None | x # _ \<Rightarrow> x)"

definition log_call :: "io_event \<Rightarrow> exn option \<Rightarrow> world \<Rightarrow> world" where
  "log_call ev r w = w\<lparr>trace := trace w @ [(ev, r)]\<rparr>"

text \<open>One call to the outside: it fails when the schedule says so, else has its effect
  (which may itself raise); either way the call and its outcome are logged.\<close>

definition prim :: "io_event \<Rightarrow> 'a io \<Rightarrow> 'a io" where
  "prim ev eff w =
     (case next_fault w of
        Some e \<Rightarrow> (Inl e, log_call ev (Some e) (w\<lparr>faults := tl (faults w)\<rparr>))
      | None \<Rightarrow>
          (case eff (w\<lparr>faults := tl (faults w)\<rparr>) of
             (Inl e, w1) \<Rightarrow> (Inl e, log_call ev (Some e) w1)
           | (Inr x, w1) \<Rightarrow> (Inr x, log_call ev None w1)))"

definition os_path_join :: "string \<Rightarrow> string \<Rightarrow> string" where
  "os_path_join a b =
     (if b \<noteq> [] \<and> hd b = CHR ''/'' then b
      else if a = [] \<or> last a = CHR ''/'' then a @ b
      else a @ ''/'' @ b)"

definition file_content :: "world \<Rightarrow> string \<Rightarrow> bytes" where
  "file_content w p = (case files w p of None \<Rightarrow> [] | Some c \<Rightarrow> c)"

definition open_rb :: "string \<Rightarrow> unit io" where
  "open_rb p =
     prim (EvOpenRead p)
       (\<lambda>w. if files w p = None then (Inl FileNotFoundError, w) else (Inr (), w))"

definition fd_read :: "string \<Rightarrow> bytes io" where
  "fd_read p = prim (EvRead p) (\<lambda>w. (Inr (file_content w p), w))"

definition open_wb :: "string \<Rightarrow> unit io" where
  "open_wb p = prim (EvOpenWrite p) (\<lambda>w. (Inr (), w\<lparr>files := (files w)(p \<mapsto> [])\<rparr>))"

definition fd_write :: "string \<Rightarrow> bytes \<Rightarrow> unit io" where
  "fd_write p b =
     prim (EvWrite p b) (\<lambda>w. (Inr (), w\<lparr>files := (files w)(p \<mapsto> file_content w p @ b)\<rparr>))"

definition fd_flush :: "string \<Rightarrow> unit io" where
  "fd_flush p = prim (EvFlush p) (io_return ())"

definition os_fsync :: "string \<Rightarrow> unit io" where
  "os_fsync p = prim (EvFsync p) (io_return ())"

definition fd_close :: "string \<Rightarrow> unit io" where
  "fd_close p = prim (EvClose p) (io_return ())"

definition os_open_dir :: "string \<Rightarrow> unit io" where
  "os_open_dir d = prim (EvOpenDir d) (io_return ())"

definition os_replace :: "string \<Rightarrow> string \<Rightarrow> unit io" where
  "os_replace src dst =
     prim (EvReplace src dst)
       (\<lambda>w. case files w src of
               None \<Rightarrow> (Inl FileNotFoundError, w)
             | Some c \<Rightarrow> (Inr (), w\<lparr>files := ((files w)(src := None))(dst \<mapsto> c)\<rparr>))"

definition os_remove :: "string \<Rightarrow> unit io" where
  "os_remove p =
     prim (EvRemove p)
       (\<lambda>w. if files w p = None then (Inl FileNotFoundError, w)
             else (Inr (), w\<lparr>files := (files w)(p := None)\<rparr>))"

definition logging_warning :: "string \<Rightarrow> unit io" where
  "logging_warning p w = (Inr (), log_call (EvLogWarning p) None w)"

text \<open>
  \<^verbatim>\<open>tempfile.NamedTemporaryFile(mode="wb", dir=d, prefix=pre, suffix=suf, delete=False)\<close>:
  the first drawn name that no file has yet is created empty; with no such name left it
  raises \<^verbatim>\<open>FileExistsError\<close>. It returns the path of the new file.
\<close>

definition temp_path :: "string \<Rightarrow> string \<Rightarrow> string \<Rightarrow> string \<Rightarrow> string" where
  "temp_path d pre suf r = os_path_join d (pre @ r @ suf)"

definition NamedTemporaryFile :: "string \<Rightarrow> string \<Rightarrow> string \<Rightarrow> string io" where
  "NamedTemporaryFile d pre suf =
     prim (EvMkstemp d pre suf)
       (\<lambda>w. case dropWhile (\<lambda>r. files w (temp_path d pre suf r) \<noteq> None) (rand_names w) of
               [] \<Rightarrow> (Inl FileExistsError, w\<lparr>rand_names := []\<rparr>)
             | r # rs \<Rightarrow>
                 (Inr (temp_path d pre suf r),
                  w\<lparr>files := (files w)(temp_path d pre suf r \<mapsto> []), rand_names := rs\<rparr>))"

subsection \<open>Loading and committing\<close>

text \<open>Lines 128-132 of \<^verbatim>\<open>reader_work\<close>: the \<^verbatim>\<open>with open(..., "rb")\<close> block.\<close>

definition read_whole_file :: "string \<Rightarrow> bytes io" where
  "read_whole_file f = io_bind (open_rb f) (\<lambda>_. io_finally (fd_read f) (fd_close f))"

definition reader_work ::
  "('sk, 'u) datasketches \<Rightarrow> 'sk mesh \<Rightarrow> world \<Rightarrow> (exn + bool) \<times> 'sk mesh \<times> world" where
  "reader_work lib m w =
     (case sketch_file m of
        None \<Rightarrow> (Inr False, m, w)
      | Some f \<Rightarrow>
          (case read_whole_file f w of
             (Inl e, w1) \<Rightarrow> if e = FileNotFoundError then (Inr False, m, w1) else (Inl e, m, w1)
           | (Inr self_serialized, w1) \<Rightarrow>
               (case deserialize lib self_serialized of
                  None \<Rightarrow> (Inl DeserializeError, m, w1)
                | Some s \<Rightarrow> (Inr True, m\<lparr>sketch := s\<rparr>, w1))))"

text \<open>Lines 176-185 of \<^verbatim>\<open>committer_work\<close>: the handler of \<^verbatim>\<open>except BaseException as e\<close>
  once \<^verbatim>\<open>temp_file_path\<close> is set.\<close>

definition remove_temp_and_reraise :: "string \<Rightarrow> exn \<Rightarrow> unit io" where
  "remove_temp_and_reraise temp_file_path e w =
     (case os_remove temp_file_path w of
        (Inl e', w1) \<Rightarrow>
          if e' = FileNotFoundError
          then io_bind (logging_warning temp_file_path) (\<lambda>_. io_raise e) w1
          else (Inl e', w1)
      | (Inr _, w1) \<Rightarrow> (Inl e, w1))"

text \<open>Lines 157-161 and 188-190: the body of either \<^verbatim>\<open>with\<close> block (write, flush,
  \<^verbatim>\<open>fsync\<close>) and the close of the file on leaving the block.\<close>

definition write_flush_fsync :: "string \<Rightarrow> bytes \<Rightarrow> unit io" where
  "write_flush_fsync p payload =
     io_finally
       (io_bind (fd_write p payload) (\<lambda>_.
        io_bind (fd_flush p) (\<lambda>_.
        os_fsync p)))
       (fd_close p)"

text \<open>Lines 167-173: the \<^verbatim>\<open>fsync\<close> of the containing directory. With
  \<^verbatim>\<open>sketch_file_dirname\<close> unset, \<^verbatim>\<open>os.open(None, ...)\<close> raises \<^verbatim>\<open>TypeError\<close>.\<close>

definition fsync_directory :: "string option \<Rightarrow> unit io" where
  "fsync_directory dirname =
     (case dirname of
        None \<Rightarrow> io_raise TypeError
      | Some d \<Rightarrow>
          io_bind (os_open_dir d) (\<lambda>_.
          io_finally (os_fsync d) (fd_close d)))"

text \<open>Lines 154-173: what the \<^verbatim>\<open>try\<close> block does once the temporary file exists.\<close>

definition write_temp_and_rename :: "string option \<Rightarrow> string \<Rightarrow> string \<Rightarrow> bytes \<Rightarrow> unit io" where
  "write_temp_and_rename dirname temp_file_path f payload =
     io_bind (write_flush_fsync temp_file_path payload) (\<lambda>_.
     io_bind (os_replace temp_file_path f) (\<lambda>_.
     fsync_directory dirname))"

text \<open>Lines 144-185: the atomic branch. With \<^verbatim>\<open>sketch_file_basename\<close> unset the prefix
  \<^verbatim>\<open>None + "_"\<close> raises \<^verbatim>\<open>TypeError\<close> before any call; with \<^verbatim>\<open>sketch_file_dirname\<close>
  unset \<^verbatim>\<open>tempfile\<close> uses its default directory.\<close>

definition atomic_write :: "string option \<Rightarrow> string option \<Rightarrow> string \<Rightarrow> bytes \<Rightarrow> unit io" where
  "atomic_write dirname basename f payload w =
     (case basename of
        None \<Rightarrow> (Inl TypeError, w)
      | Some b \<Rightarrow>
          (case NamedTemporaryFile (case dirname of None \<Rightarrow> tempdir w | Some d \<Rightarrow> d)
                  (b @ ''_'') ''.tmp'' w of
             (Inl e, w1) \<Rightarrow> (Inl e, w1)
           | (Inr temp_file_path, w1) \<Rightarrow>
               (case write_temp_and_rename dirname temp_file_path f payload w1 of
                  (Inl e, w2) \<Rightarrow> remove_temp_and_reraise temp_file_path e w2
                | (Inr u, w2) \<Rightarrow> (Inr u, w2))))"

text \<open>Lines 187-190: the direct branch.\<close>

definition direct_write :: "string \<Rightarrow> bytes \<Rightarrow> unit io" where
  "direct_write f payload = io_bind (open_wb f) (\<lambda>_. write_flush_fsync f payload)"

definition committer_work ::
  "('sk, 'u) datasketches \<Rightarrow> 'sk mesh \<Rightarrow> world \<Rightarrow> (exn + bool) \<times> 'sk mesh \<times> world" where
  "committer_work lib m w =
     (if durability_level m = VOLATILE then (Inr False, m, w)
      else case sketch_file m of
        None \<Rightarrow> (Inr False, m, w)
      | Some f \<Rightarrow>
          if is_dirty m then
            (case (if atomicity m
                   then atomic_write (sketch_file_dirname m) (sketch_file_basename m) f
                          (serialize_compact lib (sketch m))
                   else direct_write f (serialize_compact lib (sketch m))) w of
               (Inl e, w1) \<Rightarrow> (Inl e, m, w1)
             | (Inr _, w1) \<Rightarrow> (Inr True, m\<lparr>is_dirty := False\<rparr>, w1))
          else (Inr False, m, w))"

subsection \<open>The sketch engine and the RPC handlers\<close>

text \<open>A method that discards the committer's result.\<close>

definition discard ::
  "(exn + 'a) \<times> 'sk mesh \<times> world \<Rightarrow> (exn + unit) \<times> 'sk mesh \<times> world" where
  "discard r = (case r of (Inl e, m, w) \<Rightarrow> (Inl e, m, w) | (Inr _, m, w) \<Rightarrow> (Inr (), m, w))"

definition update_sketch ::
  "('sk, 'u) datasketches \<Rightarrow> datum \<Rightarrow> 'sk mesh \<Rightarrow> world \<Rightarrow> (exn + unit) \<times> 'sk mesh \<times> world" where
  "update_sketch lib d m w =
     (let m1 = m\<lparr>sketch := sk_update lib (sketch m) d, is_dirty := True\<rparr>
      in if durability_level m1 = STRICT then discard (committer_work lib m1 w)
         else (Inr (), m1, w))"

definition merge :: "('sk, 'u) datasketches \<Rightarrow> 'sk mesh \<Rightarrow> 'sk \<Rightarrow> 'sk" where
  "merge lib m other =
     get_result lib (union_update lib (union_update lib (hll_union lib LOG_K) (sketch m)) other)"

text \<open>\<^verbatim>\<open>imerge\<close>; its two \<^verbatim>\<open>LOGGER.debug\<close> lines only read the estimate.\<close>

definition imerge ::
  "('sk, 'u) datasketches \<Rightarrow> 'sk \<Rightarrow> 'sk mesh \<Rightarrow> world \<Rightarrow> (exn + unit) \<times> 'sk mesh \<times> world" where
  "imerge lib other m w =
     (let merged_sketch = merge lib m other;
          m1 = m\<lparr>is_dirty := (is_dirty m \<or>
                     serialize_compact lib merged_sketch \<noteq> serialize_compact lib (sketch m)),
                 sketch := merged_sketch\<rparr>
      in if durability_level m1 = STRICT then discard (committer_work lib m1 w)
         else (Inr (), m1, w))"

definition push ::
  "('sk, 'u) datasketches \<Rightarrow> bytes \<Rightarrow> 'sk mesh \<Rightarrow> world \<Rightarrow> (exn + unit) \<times> 'sk mesh \<times> world" where
  "push lib other_serialized m w =
     (case deserialize lib other_serialized of
        None \<Rightarrow> (Inl DeserializeError, m, w)
      | Some other_deserialized \<Rightarrow> imerge lib other_deserialized m w)"

definition pull ::
  "('sk, 'u) datasketches \<Rightarrow> 'sk mesh \<Rightarrow> world \<Rightarrow> (exn + bytes) \<times> 'sk mesh \<times> world" where
  "pull lib m w = (Inr (serialize_compact lib (sketch m)), m, w)"

subsection \<open>The peer client (\<^verbatim>\<open>thrift_helper.py\<close>) and the gossip round\<close>

text \<open>
  A \<^verbatim>\<open>ThriftHelper\<close> is told apart by its host and port. Opening the transport, and each
  call of the generated client, is one call to the outside; closing the transport and
  \<^verbatim>\<open>LOGGER.debug\<close> do not fail.
\<close>

definition transport_open :: "string \<Rightarrow> int \<Rightarrow> unit io" where
  "transport_open host port =
     prim (EvTransportOpen host port)
       (\<lambda>w. (Inr (), w\<lparr>transports := (host, port) # transports w\<rparr>))"

definition transport_close :: "string \<Rightarrow> int \<Rightarrow> unit io" where
  "transport_close host port w =
     (Inr (), log_call (EvTransportClose host port) None
                (w\<lparr>transports := removeAll (host, port) (transports w)\<rparr>))"

definition logger_debug :: "unit io" where
  "logger_debug w = (Inr (), log_call EvLogDebug None w)"

text \<open>\<^verbatim>\<open>ThriftHelper._invoke\<close>.\<close>

definition ThriftHelper_invoke :: "string \<Rightarrow> int \<Rightarrow> 'a io \<Rightarrow> 'a io" where
  "ThriftHelper_invoke host port method w =
     (case io_bind (if (host, port) \<in> set (transports w) then io_return ()
                    else transport_open host port) (\<lambda>_. method) w of
        (Inl e, w1) \<Rightarrow>
          if e = TTransportException
          then io_bind (transport_close host port) (\<lambda>_. io_raise e) w1
          else (Inl e, w1)
      | (Inr x, w1) \<Rightarrow> (Inr x, w1))"

text \<open>\<^verbatim>\<open>ThriftHelper._invoke_best_effort_broadcast\<close>, which the wrapper of
  \<^verbatim>\<open>__getattr__\<close> selects for \<^verbatim>\<open>reliable=False\<close>, the only way the node builds a helper.\<close>

definition ThriftHelper_invoke_best_effort_broadcast :: "string \<Rightarrow> int \<Rightarrow> 'a io \<Rightarrow> 'a io" where
  "ThriftHelper_invoke_best_effort_broadcast host port method w =
     (case ThriftHelper_invoke host port method w of
        (Inl e, w1) \<Rightarrow>
          if e = TTransportException then io_bind logger_debug (\<lambda>_. io_raise e) w1
          else (Inl e, w1)
      | (Inr x, w1) \<Rightarrow> (Inr x, w1))"

text \<open>The two methods of the generated \<^verbatim>\<open>AntiEntropy.Client\<close>; a \<^verbatim>\<open>pull\<close> no peer answers
  times out.\<close>

definition rpc_push :: "string \<Rightarrow> int \<Rightarrow> bytes \<Rightarrow> unit io" where
  "rpc_push host port payload = prim (EvRpcPush host port payload) (io_return ())"

definition rpc_pull :: "string \<Rightarrow> int \<Rightarrow> bytes io" where
  "rpc_pull host port =
     prim (EvRpcPull host port)
       (\<lambda>w. case pull_replies w of
               [] \<Rightarrow> (Inl TTransportException, w)
             | b # bs \<Rightarrow> (Inr b, w\<lparr>pull_replies := bs\<rparr>))"

definition client_push :: "string \<Rightarrow> int \<Rightarrow> bytes \<Rightarrow> unit io" where
  "client_push host port payload =
     ThriftHelper_invoke_best_effort_broadcast host port (rpc_push host port payload)"

definition client_pull :: "string \<Rightarrow> int \<Rightarrow> bytes io" where
  "client_pull host port =
     ThriftHelper_invoke_best_effort_broadcast host port (rpc_pull host port)"

definition push_pull ::
  "('sk, 'u) datasketches \<Rightarrow> string \<Rightarrow> int \<Rightarrow> 'sk mesh \<Rightarrow> world \<Rightarrow>
     (exn + unit) \<times> 'sk mesh \<times> world" where
  "push_pull lib host port m w =
     (case client_push host port (serialize_compact lib (sketch m)) w of
        (Inl e, w1) \<Rightarrow> (Inl e, m, w1)
      | (Inr _, w1) \<Rightarrow>
          (case client_pull host port w1 of
             (Inl e, w2) \<Rightarrow> (Inl e, m, w2)
           | (Inr other_serialized, w2) \<Rightarrow>
               (case deserialize lib other_serialized of
                  None \<Rightarrow> (Inl DeserializeError, m, w2)
                | Some other_deserialized \<Rightarrow> imerge lib other_deserialized m w2)))"

definition anti_entropy ::
  "('sk, 'u) datasketches \<Rightarrow> string \<Rightarrow> int \<Rightarrow> 'sk mesh \<Rightarrow> world \<Rightarrow>
     (exn + unit) \<times> 'sk mesh \<times> world" where
  "anti_entropy lib host port m w = push_pull lib host port m w"

definition try_anti_entropy ::
  "('sk, 'u) datasketches \<Rightarrow> string \<Rightarrow> int \<Rightarrow> 'sk mesh \<Rightarrow> world \<Rightarrow>
     (exn + bool) \<times> 'sk mesh \<times> world" where
  "try_anti_entropy lib host port m w =
     (case anti_entropy lib host port m w of
        (Inl e, m1, w1) \<Rightarrow>
          if e = TTransportException then (Inr False, m1, w1) else (Inl e, m1, w1)
      | (Inr _, m1, w1) \<Rightarrow> (Inr True, m1, w1))"

text \<open>\<^verbatim>\<open>random.sample(population, k)\<close>: \<open>k\<close> draws without replacement, each at the index
  the next random number selects among those left.\<close>

fun random_sample :: "'a list \<Rightarrow> nat \<Rightarrow> nat list \<Rightarrow> 'a list \<times> nat list" where
  "random_sample pool 0 rs = ([], rs)"
| "random_sample pool (Suc k) rs =
     (if pool = [] then ([], rs)
      else let i = (case rs of [] \<Rightarrow> 0 | r # _ \<Rightarrow> r mod length pool);
               picked = random_sample (take i pool @ drop (Suc i) pool) k (tl rs)
           in (pool ! i # fst picked, snd picked))"

text \<open>The \<^verbatim>\<open>for\<close> loop of \<^verbatim>\<open>client_work\<close>.\<close>

fun client_work_loop ::
  "('sk, 'u) datasketches \<Rightarrow> (string \<times> int) list \<Rightarrow> 'sk mesh \<Rightarrow> world \<Rightarrow>
     (exn + unit) \<times> 'sk mesh \<times> world" where
  "client_work_loop lib [] m w = (Inr (), m, w)"
| "client_work_loop lib ((host, port) # addresses) m w =
     (case try_anti_entropy lib host port m w of
        (Inl e, m1, w1) \<Rightarrow> (Inl e, m1, w1)
      | (Inr _, m1, w1) \<Rightarrow> client_work_loop lib addresses m1 w1)"

definition client_work ::
  "('sk, 'u) datasketches \<Rightarrow> (string \<times> int) list \<Rightarrow> 'sk mesh \<Rightarrow> world \<Rightarrow>
     (exn + unit) \<times> 'sk mesh \<times> world" where
  "client_work lib addrs m w =
     (let picked = random_sample addrs
                     (min (length addrs) ANTI_ENTROPY_MAX_CLIENTS) (rand_idx w)
      in client_work_loop lib (fst picked) m (w\<lparr>rand_idx := snd picked\<rparr>))"

definition time_sleep :: "world \<Rightarrow> world" where
  "time_sleep w = log_call EvSleep None w"

text \<open>
  The two periodic loops end only when another thread clears the flag they poll. The first
  argument bounds the iterations looked at; the outcome is \<open>None\<close> when the loop is still
  running after that many, and the node and world are those reached by then.
\<close>

fun client_work_periodic ::
  "('sk, 'u) datasketches \<Rightarrow> nat \<Rightarrow> (string \<times> int) list \<Rightarrow> 'sk mesh \<Rightarrow> world \<Rightarrow>
     (exn + unit) option \<times> 'sk mesh \<times> world" where
  "client_work_periodic lib 0 addrs m w =
     (if continue_client m then (None, m, w) else (Some (Inr ()), m, w))"
| "client_work_periodic lib (Suc n) addrs m w =
     (if continue_client m then
        (case client_work lib addrs m w of
           (Inl e, m1, w1) \<Rightarrow> (Some (Inl e), m1, w1)
         | (Inr _, m1, w1) \<Rightarrow> client_work_periodic lib n addrs m1 (time_sleep w1))
      else (Some (Inr ()), m, w))"

fun committer_work_periodic ::
  "('sk, 'u) datasketches \<Rightarrow> nat \<Rightarrow> 'sk mesh \<Rightarrow> world \<Rightarrow>
     (exn + unit) option \<times> 'sk mesh \<times> world" where
  "committer_work_periodic lib 0 m w =
     (if continue_committer m then (None, m, w) else (Some (Inr ()), m, w))"
| "committer_work_periodic lib (Suc n) m w =
     (if continue_committer m then
        (case committer_work lib m (time_sleep w) of
           (Inl e, m1, w1) \<Rightarrow> (Some (Inl e), m1, w1)
         | (Inr _, m1, w1) \<Rightarrow> committer_work_periodic lib n m1 w1)
      else (Some (Inr ()), m, w))"

subsection \<open>Start, signals and stop\<close>

definition signal_signal :: "int \<Rightarrow> handler \<Rightarrow> handler io" where
  "signal_signal sig h =
     prim (EvSignal sig h)
       (\<lambda>w. (Inr (sig_handlers w sig), w\<lparr>sig_handlers := (sig_handlers w)(sig := h)\<rparr>))"

definition os_kill :: "int \<Rightarrow> unit io" where
  "os_kill sig = prim (EvKill sig) (io_return ())"

definition thread_start :: "string \<Rightarrow> unit io" where
  "thread_start name = prim (EvThreadStart name) (io_return ())"

text \<open>\<^verbatim>\<open>d[k] = v\<close> on a dict in insertion order.\<close>

fun dict_set :: "('k \<times> 'v) list \<Rightarrow> 'k \<Rightarrow> 'v \<Rightarrow> ('k \<times> 'v) list" where
  "dict_set [] k v = [(k, v)]"
| "dict_set ((k', v') # d) k v = (if k' = k then (k, v) # d else (k', v') # dict_set d k v)"

text \<open>\<^verbatim>\<open>SIGINT, SIGTERM, SIGQUIT, SIGABRT, SIGHUP, SIGTSTP, SIGPWR\<close> by their Linux numbers.\<close>

definition handled_signals :: "int list" where
  "handled_signals = [2, 15, 3, 6, 1, 20, 30]"

text \<open>Lines 228-237 of \<^verbatim>\<open>start_handler\<close>.\<close>

fun install_handlers ::
  "int list \<Rightarrow> 'sk mesh \<Rightarrow> world \<Rightarrow> (exn + unit) \<times> 'sk mesh \<times> world" where
  "install_handlers [] m w = (Inr (), m, w)"
| "install_handlers (sig # sigs) m w =
     (case signal_signal sig MeshSignalHandler w of
        (Inl e, w1) \<Rightarrow> (Inl e, m, w1)
      | (Inr prev, w1) \<Rightarrow>
          install_handlers sigs
            (m\<lparr>prev_signal_handlers := dict_set (prev_signal_handlers m) sig prev\<rparr>) w1)"

text \<open>Lines 238-258: each enabled thread is started unless it already was. The bodies of
  the threads run beside the caller and are the functions \<^verbatim>\<open>server_work\<close>,
  \<open>client_work_periodic\<close> and \<open>committer_work_periodic\<close>.\<close>

definition start_threads :: "'sk mesh \<Rightarrow> world \<Rightarrow> (exn + unit) \<times> 'sk mesh \<times> world" where
  "start_threads m w =
     (case (if enable_server m
            then (if \<not> server_thread m
                  then (case thread_start ''server'' w of
                          (Inl e, w1) \<Rightarrow> (Inl e, m, w1)
                        | (Inr _, w1) \<Rightarrow> (Inr (), m\<lparr>server_thread := True\<rparr>, w1))
                  else (case logging_warning ''server'' w of (r, w1) \<Rightarrow> (r, m, w1)))
            else (Inr (), m, w)) of
        (Inl e, m1, w1) \<Rightarrow> (Inl e, m1, w1)
      | (Inr _, m1, w1) \<Rightarrow>
     (case (if enable_client m1
            then (if \<not> client_thread m1
                  then (case thread_start ''client'' w1 of
                          (Inl e, w2) \<Rightarrow> (Inl e, m1, w2)
                        | (Inr _, w2) \<Rightarrow> (Inr (), m1\<lparr>client_thread := True\<rparr>, w2))
                  else (case logging_warning ''client'' w1 of (r, w2) \<Rightarrow> (r, m1, w2)))
            else (Inr (), m1, w1)) of
        (Inl e, m2, w2) \<Rightarrow> (Inl e, m2, w2)
      | (Inr _, m2, w2) \<Rightarrow>
          if enable_committer m2
          then (if \<not> committer_thread m2
                then (case thread_start ''committer'' w2 of
                        (Inl e, w3) \<Rightarrow> (Inl e, m2, w3)
                      | (Inr _, w3) \<Rightarrow> (Inr (), m2\<lparr>committer_thread := True\<rparr>, w3))
                else (case logging_warning ''committer'' w2 of (r, w3) \<Rightarrow> (r, m2, w3)))
          else (Inr (), m2, w2)))"

definition start_handler ::
  "('sk, 'u) datasketches \<Rightarrow> 'sk mesh \<Rightarrow> world \<Rightarrow> (exn + unit) \<times> 'sk mesh \<times> world" where
  "start_handler lib m w =
     (case reader_work lib m w of
        (Inl e, m1, w1) \<Rightarrow> (Inl e, m1, w1)
      | (Inr _, m1, w1) \<Rightarrow>
          (case install_handlers handled_signals m1 w1 of
             (Inl e, m2, w2) \<Rightarrow> (Inl e, m2, w2)
           | (Inr _, m2, w2) \<Rightarrow> start_threads m2 w2))"

text \<open>Lines 218-224 of \<^verbatim>\<open>signal_handler\<close>: hand the signal to the handler found at start.\<close>

definition reraise_signal :: "int \<Rightarrow> handler \<Rightarrow> unit io" where
  "reraise_signal signum prev_handler =
     io_bind (signal_signal signum prev_handler) (\<lambda>_.
     io_bind (os_kill signum) (\<lambda>_.
     io_bind (signal_signal signum MeshSignalHandler) (\<lambda>_.
     io_return ())))"

definition signal_handler ::
  "('sk, 'u) datasketches \<Rightarrow> int \<Rightarrow> 'sk mesh \<Rightarrow> world \<Rightarrow> (exn + unit) \<times> 'sk mesh \<times> world" where
  "signal_handler lib signum m w =
     (case (if durability_level m = DELAYED then discard (committer_work lib m w)
            else (Inr (), m, w)) of
        (Inl e, m1, w1) \<Rightarrow> (Inl e, m1, w1)
      | (Inr _, m1, w1) \<Rightarrow>
          (case map_of (prev_signal_handlers m1) signum of
             None \<Rightarrow> (Inr (), m1, w1)
           | Some prev_handler \<Rightarrow>
               if sig_handlers w1 signum = MeshSignalHandler
               then (case reraise_signal signum prev_handler w1 of (r, w2) \<Rightarrow> (r, m1, w2))
               else (Inr (), m1, w1)))"

text \<open>\<^verbatim>\<open>stop_server\<close> polls until the server thread has stored its server object; the
  first argument bounds the polls, and \<open>None\<close> says the object was still missing.\<close>

fun stop_server :: "nat \<Rightarrow> 'sk mesh \<Rightarrow> world \<Rightarrow> world option" where
  "stop_server 0 m w =
     (if enable_server m
      then (if server m then Some (log_call EvServerStop None w) else None)
      else Some w)"
| "stop_server (Suc n) m w =
     (if enable_server m
      then (if server m then Some (log_call EvServerStop None w)
            else stop_server n m (time_sleep w))
      else Some w)"

text \<open>Lines 309-312 of \<^verbatim>\<open>stop_handler\<close>.\<close>

fun restore_handlers :: "(int \<times> handler) list \<Rightarrow> unit io" where
  "restore_handlers [] w = (Inr (), w)"
| "restore_handlers ((sig, prev_handler) # d) w =
     (if sig_handlers w sig = MeshSignalHandler
      then (case signal_signal sig prev_handler w of
              (Inl e, w1) \<Rightarrow> (Inl e, w1)
            | (Inr _, w1) \<Rightarrow> restore_handlers d w1)
      else restore_handlers d w)"

definition stop_handler ::
  "('sk, 'u) datasketches \<Rightarrow> nat \<Rightarrow> 'sk mesh \<Rightarrow> world \<Rightarrow>
     ((exn + unit) \<times> 'sk mesh \<times> world) option" where
  "stop_handler lib polls m w =
     (case stop_server polls m w of
        None \<Rightarrow> None
      | Some w1 \<Rightarrow>
          Some (let m1 = m\<lparr>continue_client := False, continue_committer := False\<rparr>
                in case (if durability_level m1 = DELAYED then discard (committer_work lib m1 w1)
                         else (Inr (), m1, w1)) of
                     (Inl e, m2, w2) \<Rightarrow> (Inl e, m2, w2)
                   | (Inr _, m2, w2) \<Rightarrow>
                       (case restore_handlers (prev_signal_handlers m2) w2 of
                          (r, w3) \<Rightarrow> (r, m2, w3))))"

subsection \<open>Properties the statements are phrased in\<close>

text \<open>What the constructor establishes and every method keeps: a node that persists has
  a sketch file, and the directory and base name are those of the sketch file.\<close>

definition mesh_inv :: "'sk mesh \<Rightarrow> bool" where
  "mesh_inv m \<longleftrightarrow>
     (durability_level m \<noteq> VOLATILE \<longrightarrow> sketch_file m \<noteq> None) \<and>
     sketch_file_dirname m = map_option (\<lambda>f. or_dot (fst (os_path_split f))) (sketch_file m) \<and>
     sketch_file_basename m = map_option (\<lambda>f. snd (os_path_split f)) (sketch_file m)"

text \<open>The configuration of a node: the fields the methods read but never assign.\<close>

definition same_config :: "'sk mesh \<Rightarrow> 'sk mesh \<Rightarrow> bool" where
  "same_config m m' \<longleftrightarrow>
     durability_level m' = durability_level m \<and> atomicity m' = atomicity m \<and>
     sketch_file m' = sketch_file m \<and> sketch_file_dirname m' = sketch_file_dirname m \<and>
     sketch_file_basename m' = sketch_file_basename m"

text \<open>The calls that touch the file system.\<close>

fun is_file_io :: "io_event \<Rightarrow> bool" where
  "is_file_io (EvOpenRead _) = True"
| "is_file_io (EvRead _) = True"
| "is_file_io (EvOpenWrite _) = True"
| "is_file_io (EvMkstemp _ _ _) = True"
| "is_file_io (EvWrite _ _) = True"
| "is_file_io (EvFlush _) = True"
| "is_file_io (EvFsync _) = True"
| "is_file_io (EvClose _) = True"
| "is_file_io (EvReplace _ _) = True"
| "is_file_io (EvOpenDir _) = True"
| "is_file_io (EvRemove _) = True"
| "is_file_io _ = False"

definition file_calls :: "world \<Rightarrow> (io_event \<times> exn option) list" where
  "file_calls w = filter (\<lambda>c. is_file_io (fst c)) (trace w)"

text \<open>A peer address as the data model wants it.\<close>

definition valid_address :: "string \<times> int \<Rightarrow> bool" where
  "valid_address a \<longleftrightarrow> fst a \<noteq> [] \<and> 0 \<le> snd a \<and> snd a \<le> 65535"

text \<open>The steps 1 to 5 of the atomic write protocol, as the calls they are, for the
  directory \<open>d\<close>, the base name \<open>b\<close>, the temporary path \<open>tp\<close> and the target \<open>f\<close>.\<close>

definition atomic_protocol :: "string \<Rightarrow> string \<Rightarrow> string \<Rightarrow> string \<Rightarrow> bytes \<Rightarrow> io_event list" where
  "atomic_protocol d b tp f payload =
     [EvMkstemp d (b @ ''_'') ''.tmp'', EvWrite tp payload, EvFlush tp, EvFsync tp, EvClose tp,
      EvReplace tp f, EvOpenDir d, EvFsync d, EvClose d]"

definition succeeded :: "io_event list \<Rightarrow> (io_event \<times> exn option) list" where
  "succeeded evs = map (\<lambda>ev. (ev, None)) evs"

text \<open>The calls of the clean-up: the removal with its outcome, and the warning when the
  file was already gone.\<close>

definition cleanup_calls :: "string \<Rightarrow> exn option \<Rightarrow> (io_event \<times> exn option) list" where
  "cleanup_calls tp rm =
     (EvRemove tp, rm) # (if rm = Some FileNotFoundError then [(EvLogWarning tp, None)] else [])"

text \<open>The error a result carries, if any.\<close>

definition outcome :: "exn + 'a \<Rightarrow> exn option" where
  "outcome r = (case r of Inl e \<Rightarrow> Some e | Inr _ \<Rightarrow> None)"

text \<open>\<open>tp\<close> is a path \<open>d/b_<random>.tmp\<close> that no file of the world \<open>w\<close> has.\<close>

definition new_temp :: "string \<Rightarrow> string \<Rightarrow> string \<Rightarrow> world \<Rightarrow> bool" where
  "new_temp d b tp w \<longleftrightarrow>
     (\<exists>r \<in> set (rand_names w). tp = os_path_join d (b @ ''_'' @ r @ ''.tmp'')) \<and>
     files w tp = None"

text \<open>
  The calls of an atomic flush whose step \<open>k\<close> (counted from 0) raised \<open>e0\<close>: the steps
  before it succeeded; a failure inside a \<^verbatim>\<open>with\<close> or \<^verbatim>\<open>try ... finally\<close> block (steps 1 to
  3, step 7) is followed by the block's close, with outcome \<open>c\<close>; and once the temporary
  file exists the clean-up follows, with the outcome \<open>rm\<close> of the removal. The error that
  leaves the flush is the one the handler caught, unless the removal failed for another
  reason than the file being gone.
\<close>

definition failed_flush_calls ::
  "string \<Rightarrow> string \<Rightarrow> string \<Rightarrow> string \<Rightarrow> bytes \<Rightarrow> nat \<Rightarrow> exn \<Rightarrow> exn option \<Rightarrow> exn option \<Rightarrow>
     (io_event \<times> exn option) list" where
  "failed_flush_calls d b tp f payload k e0 c rm =
     succeeded (take k (atomic_protocol d b tp f payload)) @
     [(atomic_protocol d b tp f payload ! k, Some e0)] @
     (if k = 1 \<or> k = 2 \<or> k = 3 then [(EvClose tp, c)] else if k = 7 then [(EvClose d, c)] else []) @
     (if k = 0 then [] else cleanup_calls tp rm)"

definition failed_flush_error :: "nat \<Rightarrow> exn \<Rightarrow> exn option \<Rightarrow> exn option \<Rightarrow> exn" where
  "failed_flush_error k e0 c rm =
     (let caught = (if k = 1 \<or> k = 2 \<or> k = 3 \<or> k = 7
                    then (case c of None \<Rightarrow> e0 | Some e1 \<Rightarrow> e1) else e0)
      in if k = 0 then e0
         else (case rm of
                 None \<Rightarrow> caught
               | Some x \<Rightarrow> if x = FileNotFoundError then caught else x))"

subsection \<open>A small sketch library and a small world, for concrete runs\<close>

text \<open>
  A stand-in for \<^verbatim>\<open>datasketches\<close>: a sketch is the list of the hashes it was fed, its
  compact form lists each hash once, so that sketches that differ in memory can have the
  same compact form; bytes that repeat a hash are rejected.
\<close>

fun datum_hash :: "datum \<Rightarrow> nat" where
  "datum_hash (DInt i) = nat (i mod 256)"
| "datum_hash (DFloat x) = unat x mod 256"
| "datum_hash (DStr s) = length s mod 256"

definition toy_sketches :: "(nat list, nat list) datasketches" where
  "toy_sketches =
     \<lparr> hll_sketch = (\<lambda>k. []),
       sk_update = (\<lambda>s d. datum_hash d # s),
       serialize_compact = (\<lambda>s. map of_nat (remdups s)),
       deserialize = (\<lambda>bs. if distinct bs then Some (map unat bs) else None),
       hll_union = (\<lambda>k. []),
       union_update = (\<lambda>u s. u @ s),
       get_result = (\<lambda>u. u) \<rparr>"

definition tmp_fs :: fs_query where
  "tmp_fs = \<lparr> isdir = (\<lambda>p. p = ''/tmp''), path_exists = (\<lambda>p. p = ''/tmp''),
              access_w = (\<lambda>p. p = ''/tmp'') \<rparr>"

definition quiet_world :: world where
  "quiet_world =
     \<lparr> files = Map.empty, trace = [], faults = [], rand_names = [''k3x9''], tempdir = ''/tmp'',
       rand_idx = [], transports = [], pull_replies = [], sig_handlers = (\<lambda>_. SIG_DFL) \<rparr>"

definition args0 :: init_args where
  "args0 =
     \<lparr> arg_enable_server = True, arg_enable_client = True,
       arg_server_address = Some (''::'', 6000),
       arg_client_addresses = Some [(''::1'', 6000)],
       arg_sketch_file = None, arg_durability_level = VOLATILE, arg_atomicity = None \<rparr>"

text \<open>The node the constructor builds from \<open>args0\<close>, and one that persists strictly.\<close>

definition node0 :: "nat list mesh" where
  "node0 =
     \<lparr> enable_server = True, enable_client = True,
       server_address = Some (''::'', 6000), client_addresses = Some [(''::1'', 6000)],
       sketch_file = None, durability_level = VOLATILE, atomicity = False,
       sketch_file_dirname = None, sketch_file_basename = None,
       enable_committer = False, continue_client = True, continue_committer = False,
       is_dirty = False, server_thread = False, client_thread = False,
       committer_thread = False, prev_signal_handlers = [], server = False, sketch = [] \<rparr>"

definition strict_node :: "nat list mesh" where
  "strict_node =
     node0\<lparr> sketch_file := Some ''/tmp/s1'', durability_level := STRICT, atomicity := True,
            sketch_file_dirname := Some ''/tmp'', sketch_file_basename := Some ''s1'' \<rparr>"

section \<open>Configuration\<close>

lemma split_tmp_s1: "os_path_split ''/tmp/s1'' = (''/tmp'', ''s1'')"
  by (simp add: os_path_split_def rstrip_sep_def)

lemma init_args0: "AnalyticsMesh_init toy_sketches tmp_fs args0 = Inr node0"
  by (simp add: AnalyticsMesh_init_def args0_def node0_def check_server_address_def
      py_or_def toy_sketches_def)

lemma init_establishes_inv: "AnalyticsMesh_init lib fs a = Inr m \<Longrightarrow> mesh_inv m"
  by (auto simp: AnalyticsMesh_init_def mesh_inv_def Let_def split: option.splits if_splits)

lemma init_server_address_valid:
  "AnalyticsMesh_init lib fs a = Inr m \<Longrightarrow> server_address m = Some sa \<Longrightarrow> valid_address sa"
  by (auto simp: AnalyticsMesh_init_def check_server_address_def valid_address_def Let_def
      split: option.splits if_splits prod.splits)

lemma parse_address_valid: "parse_address py_int s = Inr a \<Longrightarrow> valid_address a"
  by (auto simp: parse_address_def valid_address_def Let_def split: option.splits if_splits)

text \<open>
  C5. The claim: an atomicity flag given explicitly is used as given. The constructor and
  the command line both compute \<^verbatim>\<open>atomicity or (durability != VOLATILE)\<close>, and an explicit
  \<^verbatim>\<open>False\<close> is as falsy as \<^verbatim>\<open>None\<close>: with durability DELAYED and atomicity explicitly false,
  the node built has atomicity true, and so has the namespace of the command line.
\<close>

theorem explicit_no_atomicity_is_overridden:
  "map_sum id atomicity
     (AnalyticsMesh_init toy_sketches tmp_fs
        (args0\<lparr>arg_sketch_file := Some ''/tmp/s1'', arg_durability_level := DELAYED,
               arg_atomicity := Some False\<rparr>)) = Inr True \<and>
   map_sum id ns_atomicity
     (parse_args_checks
        \<lparr> ns_sketch_file = Some ''/tmp/s1'', ns_enable_server = True, ns_enable_client = True,
          ns_server_address = (''::'', 6000), ns_client_addresses = [(''::1'', 6000)],
          ns_durability_level = DELAYED, ns_atomicity = Some False \<rparr>) = Inr (Some True)"
  by (simp add: AnalyticsMesh_init_def args0_def tmp_fs_def check_server_address_def
      check_sketch_file_def split_tmp_s1 py_or_def or_dot_def parse_args_checks_def)

text \<open>
  C6. The claim as stated fails: a VOLATILE configuration that names a sketch file (and
  leaves atomicity off) is accepted, by the constructor and by the command line.
\<close>

theorem volatile_with_sketch_file_is_accepted:
  "arg_durability_level (args0\<lparr>arg_sketch_file := Some ''/tmp/s1''\<rparr>) = VOLATILE \<and>
   arg_sketch_file (args0\<lparr>arg_sketch_file := Some ''/tmp/s1''\<rparr>) \<noteq> None \<and>
   \<not> isl (AnalyticsMesh_init toy_sketches tmp_fs (args0\<lparr>arg_sketch_file := Some ''/tmp/s1''\<rparr>)) \<and>
   \<not> isl (parse_args_checks
        \<lparr> ns_sketch_file = Some ''/tmp/s1'', ns_enable_server = True, ns_enable_client = True,
          ns_server_address = (''::'', 6000), ns_client_addresses = [(''::1'', 6000)],
          ns_durability_level = VOLATILE, ns_atomicity = None \<rparr>)"
  by (simp add: AnalyticsMesh_init_def args0_def tmp_fs_def check_server_address_def
      check_sketch_file_def split_tmp_s1 py_or_def or_dot_def parse_args_checks_def)

text \<open>
  C6, amended. Validation rejects every configuration with durability VOLATILE whose
  atomicity is on, and every configuration with another durability that has no sketch
  file; the constructor does so whatever the file system answers (it has not been asked
  yet, and nothing else has been done), and so does the command line. A sketch file given
  with VOLATILE is no ground for rejection: such a configuration, atomicity not on, is
  accepted once the address and the path pass their checks.
\<close>

theorem validation_rejects_bad_durability_settings:
  "(arg_durability_level a = VOLATILE \<and> arg_atomicity a = Some True \<longrightarrow>
      (\<exists>e. AnalyticsMesh_init lib fs a = Inl (ValueError e)) \<and>
      (check_server_address (arg_server_address a) = None \<longrightarrow>
         AnalyticsMesh_init lib fs a = Inl (ValueError (AtomicityWithDurability VOLATILE)))) \<and>
   (arg_durability_level a \<noteq> VOLATILE \<and> arg_sketch_file a = None \<longrightarrow>
      (\<exists>e. AnalyticsMesh_init lib fs a = Inl (ValueError e)) \<and>
      (check_server_address (arg_server_address a) = None \<longrightarrow>
         AnalyticsMesh_init lib fs a =
           Inl (ValueError (SketchFileRequired (arg_durability_level a))))) \<and>
   (ns_durability_level ns = VOLATILE \<and> ns_atomicity ns = Some True \<longrightarrow>
      parse_args_checks ns = Inl (ParserError (AtomicityWithDurability VOLATILE))) \<and>
   (ns_durability_level ns \<noteq> VOLATILE \<and> ns_sketch_file ns = None \<longrightarrow>
      parse_args_checks ns = Inl (ParserError (SketchFileRequired (ns_durability_level ns)))) \<and>
   (arg_durability_level a = VOLATILE \<and> arg_atomicity a \<noteq> Some True \<and>
    check_server_address (arg_server_address a) = None \<and>
    (\<forall>f. arg_sketch_file a = Some f \<longrightarrow> check_sketch_file fs f = None) \<longrightarrow>
      \<not> isl (AnalyticsMesh_init lib fs a))"
  by (cases "arg_atomicity a"; cases "ns_atomicity ns"; cases "arg_sketch_file a")
     (auto simp: AnalyticsMesh_init_def parse_args_checks_def py_or_def Let_def
        check_server_address_def split: option.splits if_splits prod.splits)

theorem validation_rejects_bad_durability_settings_witness:
  "AnalyticsMesh_init toy_sketches tmp_fs (args0\<lparr>arg_atomicity := Some True\<rparr>)
     = Inl (ValueError (AtomicityWithDurability VOLATILE)) \<and>
   AnalyticsMesh_init toy_sketches tmp_fs (args0\<lparr>arg_durability_level := STRICT\<rparr>)
     = Inl (ValueError (SketchFileRequired STRICT)) \<and>
   \<not> isl (AnalyticsMesh_init toy_sketches tmp_fs (args0\<lparr>arg_sketch_file := Some ''/tmp/s1''\<rparr>))"
proof -
  have a: "check_server_address (arg_server_address args0) = None"
    by (simp add: args0_def check_server_address_def)
  have f: "check_sketch_file tmp_fs ''/tmp/s1'' = None"
    by (simp add: check_sketch_file_def split_tmp_s1 tmp_fs_def or_dot_def)
  show ?thesis
    using validation_rejects_bad_durability_settings
            [of "args0\<lparr>arg_atomicity := Some True\<rparr>" toy_sketches tmp_fs undefined]
          validation_rejects_bad_durability_settings
            [of "args0\<lparr>arg_durability_level := STRICT\<rparr>" toy_sketches tmp_fs undefined]
          validation_rejects_bad_durability_settings
            [of "args0\<lparr>arg_sketch_file := Some ''/tmp/s1''\<rparr>" toy_sketches tmp_fs undefined]
          a f
    by (simp add: args0_def)
qed

text \<open>
  C9. The claim: construction fails unless the server address and every client address
  has a non-empty host and a port in [0, 65535]. The constructor checks the server address
  (\<open>init_server_address_valid\<close>) and the command line checks every address it parses
  (\<open>parse_address_valid\<close>), but the constructor stores the client addresses unchecked: a
  node is built that holds a client address with an empty host and the port 70000.
\<close>

theorem init_keeps_invalid_client_address:
  "map_sum id client_addresses
     (AnalyticsMesh_init toy_sketches tmp_fs
        (args0\<lparr>arg_client_addresses := Some [([], 70000)]\<rparr>)) = Inr (Some [([], 70000)]) \<and>
   \<not> valid_address ([], 70000)"
  by (simp add: AnalyticsMesh_init_def args0_def check_server_address_def py_or_def
      valid_address_def)

section \<open>The RPC handlers\<close>

text \<open>
  C8. For every byte string whose deserialization fails, \<open>push\<close> raises the
  deserialization error and leaves the node (its sketch and dirty flag among the rest)
  and the world as they were: the merge is not reached.
\<close>

theorem push_malformed_leaves_state:
  "deserialize lib b = None \<Longrightarrow> push lib b m w = (Inl DeserializeError, m, w)"
  by (simp add: push_def)

theorem push_malformed_leaves_state_witness:
  "deserialize toy_sketches [7, 7] = None \<and>
   push toy_sketches [7, 7] node0 quiet_world = (Inl DeserializeError, node0, quiet_world)"
proof -
  have d: "deserialize toy_sketches [7, 7] = None"
    by (simp add: toy_sketches_def)
  from push_malformed_leaves_state [OF d, of node0 quiet_world] d show ?thesis by simp
qed

section \<open>What a flush does, call by call\<close>

lemma prim_trace:
  assumes "prim ev eff w = (r, w')"
    and "\<And>w0 r0 w1. eff w0 = (r0, w1) \<Longrightarrow> trace w1 = trace w0"
  shows "trace w' = trace w @ [(ev, outcome r)]"
proof (cases "next_fault w")
  case (Some e)
  with assms(1) show ?thesis by (auto simp: prim_def log_call_def outcome_def)
next
  case None
  obtain r0 w1 where e: "eff (w\<lparr>faults := tl (faults w)\<rparr>) = (r0, w1)" by force
  from assms(2)[OF e] have "trace w1 = trace w" by simp
  with None e assms(1) show ?thesis
    by (cases r0) (auto simp: prim_def log_call_def outcome_def)
qed

lemma fd_write_trace:
  "fd_write p b w = (r, w') \<Longrightarrow> trace w' = trace w @ [(EvWrite p b, outcome r)]"
  unfolding fd_write_def by (erule prim_trace) auto

lemma fd_flush_trace:
  "fd_flush p w = (r, w') \<Longrightarrow> trace w' = trace w @ [(EvFlush p, outcome r)]"
  unfolding fd_flush_def by (erule prim_trace) (auto simp: io_return_def)

lemma os_fsync_trace:
  "os_fsync p w = (r, w') \<Longrightarrow> trace w' = trace w @ [(EvFsync p, outcome r)]"
  unfolding os_fsync_def by (erule prim_trace) (auto simp: io_return_def)

lemma fd_close_trace:
  "fd_close p w = (r, w') \<Longrightarrow> trace w' = trace w @ [(EvClose p, outcome r)]"
  unfolding fd_close_def by (erule prim_trace) (auto simp: io_return_def)

lemma os_open_dir_trace:
  "os_open_dir p w = (r, w') \<Longrightarrow> trace w' = trace w @ [(EvOpenDir p, outcome r)]"
  unfolding os_open_dir_def by (erule prim_trace) (auto simp: io_return_def)

lemma os_replace_trace:
  "os_replace p q w = (r, w') \<Longrightarrow> trace w' = trace w @ [(EvReplace p q, outcome r)]"
  unfolding os_replace_def by (erule prim_trace) (auto split: option.splits)

lemma os_remove_trace:
  "os_remove p w = (r, w') \<Longrightarrow> trace w' = trace w @ [(EvRemove p, outcome r)]"
  unfolding os_remove_def by (erule prim_trace) (auto split: if_splits)

lemma open_wb_trace:
  "open_wb p w = (r, w') \<Longrightarrow> trace w' = trace w @ [(EvOpenWrite p, outcome r)]"
  unfolding open_wb_def by (erule prim_trace) auto

lemma open_rb_trace:
  "open_rb p w = (r, w') \<Longrightarrow> trace w' = trace w @ [(EvOpenRead p, outcome r)]"
  unfolding open_rb_def by (erule prim_trace) (auto split: if_splits)

lemma fd_read_trace:
  "fd_read p w = (r, w') \<Longrightarrow> trace w' = trace w @ [(EvRead p, outcome r)]"
  unfolding fd_read_def by (erule prim_trace) auto

lemma mkstemp_trace:
  "NamedTemporaryFile d pre suf w = (r, w') \<Longrightarrow>
     trace w' = trace w @ [(EvMkstemp d pre suf, outcome r)]"
  unfolding NamedTemporaryFile_def by (erule prim_trace) (auto split: list.splits)

lemma io_bind_cases:
  assumes "io_bind p f w = (r, w')"
  obtains (failed) e where "p w = (Inl e, w')" "r = Inl e"
        | (went_on) x w1 where "p w = (Inr x, w1)" "f x w1 = (r, w')"
  using assms by (auto simp: io_bind_def split: prod.splits sum.splits)

lemma io_finally_cases:
  assumes "io_finally p c w = (r, w')"
  obtains r1 w1 rc where "p w = (r1, w1)" "c w1 = (rc, w')"
    "r = (case rc of Inl e \<Rightarrow> Inl e | Inr _ \<Rightarrow> r1)"
  using assms by (auto simp: io_finally_def split: prod.splits sum.splits)

text \<open>The three calls inside a \<^verbatim>\<open>with\<close> block: the calls made, up to the first that fails.\<close>

lemma with_body_shape:
  assumes "io_bind (fd_write p b) (\<lambda>_. io_bind (fd_flush p) (\<lambda>_. os_fsync p)) w = (r, w')"
  shows "(\<exists>e. r = Inl e \<and> trace w' = trace w @ [(EvWrite p b, Some e)]) \<or>
         (\<exists>e. r = Inl e \<and> trace w' = trace w @ [(EvWrite p b, None), (EvFlush p, Some e)]) \<or>
         trace w' = trace w @ [(EvWrite p b, None), (EvFlush p, None), (EvFsync p, outcome r)]"
  using assms
proof (cases rule: io_bind_cases)
  case (failed e)
  from fd_write_trace[OF failed(1)] failed(2) show ?thesis by (simp add: outcome_def)
next
  case (went_on x w1)
  from fd_write_trace[OF went_on(1)]
  have t1: "trace w1 = trace w @ [(EvWrite p b, None)]" by (simp add: outcome_def)
  from went_on(2) show ?thesis
  proof (cases rule: io_bind_cases)
    case (failed e)
    from fd_flush_trace[OF failed(1)] failed(2) t1 show ?thesis by (simp add: outcome_def)
  next
    case (went_on y w2)
    from fd_flush_trace[OF went_on(1)] os_fsync_trace[OF went_on(2)] t1 show ?thesis
      by (simp add: outcome_def)
  qed
qed

lemma write_flush_fsync_shape:
  assumes "write_flush_fsync p b w = (r, w')"
  shows "\<exists>new. trace w' = trace w @ new \<and>
     (case r of
        Inr _ \<Rightarrow> new = succeeded [EvWrite p b, EvFlush p, EvFsync p, EvClose p]
      | Inl e \<Rightarrow>
          (\<exists>e0 c. new = [(EvWrite p b, Some e0), (EvClose p, c)] \<and>
                   e = (case c of None \<Rightarrow> e0 | Some e1 \<Rightarrow> e1)) \<or>
          (\<exists>e0 c. new = [(EvWrite p b, None), (EvFlush p, Some e0), (EvClose p, c)] \<and>
                   e = (case c of None \<Rightarrow> e0 | Some e1 \<Rightarrow> e1)) \<or>
          (\<exists>e0 c. new = [(EvWrite p b, None), (EvFlush p, None), (EvFsync p, Some e0),
                          (EvClose p, c)] \<and>
                   e = (case c of None \<Rightarrow> e0 | Some e1 \<Rightarrow> e1)) \<or>
          new = [(EvWrite p b, None), (EvFlush p, None), (EvFsync p, None),
                 (EvClose p, Some e)])"
proof -
  from assms obtain r1 w1 rc where
    body: "io_bind (fd_write p b) (\<lambda>_. io_bind (fd_flush p) (\<lambda>_. os_fsync p)) w = (r1, w1)"
    and cl: "fd_close p w1 = (rc, w')"
    and r: "r = (case rc of Inl e \<Rightarrow> Inl e | Inr _ \<Rightarrow> r1)"
    unfolding write_flush_fsync_def by (rule io_finally_cases)
  from fd_close_trace[OF cl] have t: "trace w' = trace w1 @ [(EvClose p, outcome rc)]" .
  from with_body_shape[OF body] consider
      (a) e where "r1 = Inl e" "trace w1 = trace w @ [(EvWrite p b, Some e)]"
    | (b) e where "r1 = Inl e" "trace w1 = trace w @ [(EvWrite p b, None), (EvFlush p, Some e)]"
    | (c) "trace w1 = trace w @ [(EvWrite p b, None), (EvFlush p, None), (EvFsync p, outcome r1)]"
    by blast
  then show ?thesis
  proof cases
    case a
    with t r show ?thesis by (cases rc) (simp_all add: outcome_def)
  next
    case b
    with t r show ?thesis by (cases rc) (simp_all add: outcome_def)
  next
    case c
    with t r show ?thesis by (cases rc; cases r1) (simp_all add: outcome_def succeeded_def)
  qed
qed

lemma fsync_directory_shape:
  assumes "fsync_directory (Some d) w = (r, w')"
  shows "\<exists>new. trace w' = trace w @ new \<and>
     (case r of
        Inr _ \<Rightarrow> new = succeeded [EvOpenDir d, EvFsync d, EvClose d]
      | Inl e \<Rightarrow>
          new = [(EvOpenDir d, Some e)] \<or>
          (\<exists>e0 c. new = [(EvOpenDir d, None), (EvFsync d, Some e0), (EvClose d, c)] \<and>
                   e = (case c of None \<Rightarrow> e0 | Some e1 \<Rightarrow> e1)) \<or>
          new = [(EvOpenDir d, None), (EvFsync d, None), (EvClose d, Some e)])"
  using assms unfolding fsync_directory_def io_finally_def io_bind_def succeeded_def
  by (auto split: prod.splits sum.splits
      dest!: os_open_dir_trace os_fsync_trace fd_close_trace simp: outcome_def)

lemma write_temp_and_rename_cases:
  assumes "write_temp_and_rename dn tp f payload w = (r, w')"
  obtains (write_failed) e where "write_flush_fsync tp payload w = (Inl e, w')" "r = Inl e"
    | (replace_failed) u w1 e where "write_flush_fsync tp payload w = (Inr u, w1)"
        "os_replace tp f w1 = (Inl e, w')" "r = Inl e"
    | (renamed) u w1 u' w2 where "write_flush_fsync tp payload w = (Inr u, w1)"
        "os_replace tp f w1 = (Inr u', w2)" "fsync_directory dn w2 = (r, w')"
  using assms unfolding write_temp_and_rename_def
  by (auto elim!: io_bind_cases)

lemma write_temp_and_rename_ok:
  assumes "write_temp_and_rename (Some d) tp f payload w = (Inr u, w')"
  shows "trace w' = trace w @ succeeded (tl (atomic_protocol d b tp f payload))"
  using assms
proof (cases rule: write_temp_and_rename_cases)
  case (renamed u1 w1 u2 w2)
  from write_flush_fsync_shape[OF renamed(1)] os_replace_trace[OF renamed(2)]
    fsync_directory_shape[OF renamed(3)]
  show ?thesis by (auto simp: succeeded_def atomic_protocol_def outcome_def)
qed simp_all

lemma write_temp_and_rename_failed:
  assumes "write_temp_and_rename (Some d) tp f payload w = (Inl e, w')"
  shows "\<exists>new k e0 c. trace w' = trace w @ new \<and> 1 \<le> k \<and> k < 9 \<and>
           e = failed_flush_error k e0 c None \<and>
           (\<forall>rm. (EvMkstemp d (b @ ''_'') ''.tmp'', None) # new @ cleanup_calls tp rm
                  = failed_flush_calls d b tp f payload k e0 c rm)"
proof -
  let ?P = "\<lambda>new k e0 c. trace w' = trace w @ new \<and> 1 \<le> k \<and> k < 9 \<and>
           e = failed_flush_error k e0 c None \<and>
           (\<forall>rm. (EvMkstemp d (b @ ''_'') ''.tmp'', None) # new @ cleanup_calls tp rm
                  = failed_flush_calls d b tp f payload k e0 c rm)"
  note defs = failed_flush_calls_def failed_flush_error_def atomic_protocol_def succeeded_def
  from assms show ?thesis
  proof (cases rule: write_temp_and_rename_cases)
    case (write_failed e')
    then have s1: "write_flush_fsync tp payload w = (Inl e, w')" by simp
    from write_flush_fsync_shape[OF s1] obtain n1 where t1: "trace w' = trace w @ n1"
      and c1: "(\<exists>e0 c. n1 = [(EvWrite tp payload, Some e0), (EvClose tp, c)] \<and>
                   e = (case c of None \<Rightarrow> e0 | Some e1 \<Rightarrow> e1)) \<or>
          (\<exists>e0 c. n1 = [(EvWrite tp payload, None), (EvFlush tp, Some e0), (EvClose tp, c)] \<and>
                   e = (case c of None \<Rightarrow> e0 | Some e1 \<Rightarrow> e1)) \<or>
          (\<exists>e0 c. n1 = [(EvWrite tp payload, None), (EvFlush tp, None), (EvFsync tp, Some e0),
                          (EvClose tp, c)] \<and>
                   e = (case c of None \<Rightarrow> e0 | Some e1 \<Rightarrow> e1)) \<or>
          n1 = [(EvWrite tp payload, None), (EvFlush tp, None), (EvFsync tp, None),
                 (EvClose tp, Some e)]"
      by auto
    from c1 consider
        (a) e0 c where "n1 = [(EvWrite tp payload, Some e0), (EvClose tp, c)]"
          "e = (case c of None \<Rightarrow> e0 | Some e1 \<Rightarrow> e1)"
      | (b) e0 c where "n1 = [(EvWrite tp payload, None), (EvFlush tp, Some e0), (EvClose tp, c)]"
          "e = (case c of None \<Rightarrow> e0 | Some e1 \<Rightarrow> e1)"
      | (c) e0 c where "n1 = [(EvWrite tp payload, None), (EvFlush tp, None),
                              (EvFsync tp, Some e0), (EvClose tp, c)]"
          "e = (case c of None \<Rightarrow> e0 | Some e1 \<Rightarrow> e1)"
      | (d) "n1 = [(EvWrite tp payload, None), (EvFlush tp, None), (EvFsync tp, None),
                   (EvClose tp, Some e)]"
      by blast
    then show ?thesis
    proof cases
      case a
      with t1 have "?P n1 1 e0 c" by (simp add: defs)
      then show ?thesis by blast
    next
      case b
      with t1 have "?P n1 2 e0 c" by (simp add: defs)
      then show ?thesis by blast
    next
      case c
      with t1 have "?P n1 3 e0 c" by (simp add: defs)
      then show ?thesis by blast
    next
      case d
      with t1 have "?P n1 4 e None" by (simp add: defs)
      then show ?thesis by blast
    qed
  next
    case (replace_failed u w1 e')
    from write_flush_fsync_shape[OF replace_failed(1)]
    have t1: "trace w1 = trace w @ succeeded [EvWrite tp payload, EvFlush tp, EvFsync tp, EvClose tp]"
      by simp
    from os_replace_trace[OF replace_failed(2)] replace_failed(3)
    have t2: "trace w' = trace w1 @ [(EvReplace tp f, Some e)]" by (simp add: outcome_def)
    from t1 t2 have "?P (succeeded [EvWrite tp payload, EvFlush tp, EvFsync tp, EvClose tp]
                          @ [(EvReplace tp f, Some e)]) 5 e None"
      by (simp add: defs)
    then show ?thesis by blast
  next
    case (renamed u w1 u' w2)
    from write_flush_fsync_shape[OF renamed(1)]
    have t1: "trace w1 = trace w @ succeeded [EvWrite tp payload, EvFlush tp, EvFsync tp, EvClose tp]"
      by simp
    from os_replace_trace[OF renamed(2)]
    have t2: "trace w2 = trace w1 @ [(EvReplace tp f, None)]" by (simp add: outcome_def)
    from fsync_directory_shape[OF renamed(3)] obtain n3 where t3: "trace w' = trace w2 @ n3"
      and c3: "n3 = [(EvOpenDir d, Some e)] \<or>
          (\<exists>e0 c. n3 = [(EvOpenDir d, None), (EvFsync d, Some e0), (EvClose d, c)] \<and>
                   e = (case c of None \<Rightarrow> e0 | Some e1 \<Rightarrow> e1)) \<or>
          n3 = [(EvOpenDir d, None), (EvFsync d, None), (EvClose d, Some e)]"
      by auto
    let ?pre = "succeeded [EvWrite tp payload, EvFlush tp, EvFsync tp, EvClose tp]
                @ [(EvReplace tp f, None)]"
    from c3 consider (a) "n3 = [(EvOpenDir d, Some e)]"
      | (b) e0 c where "n3 = [(EvOpenDir d, None), (EvFsync d, Some e0), (EvClose d, c)]"
          "e = (case c of None \<Rightarrow> e0 | Some e1 \<Rightarrow> e1)"
      | (c) "n3 = [(EvOpenDir d, None), (EvFsync d, None), (EvClose d, Some e)]"
      by blast
    then show ?thesis
    proof cases
      case a
      with t1 t2 t3 have "?P (?pre @ n3) 6 e None" by (simp add: defs)
      then show ?thesis by blast
    next
      case b
      with t1 t2 t3 have "?P (?pre @ n3) 7 e0 c" by (simp add: defs)
      then show ?thesis by blast
    next
      case c
      with t1 t2 t3 have "?P (?pre @ n3) 8 e None" by (simp add: defs)
      then show ?thesis by blast
    qed
  qed
qed

lemma remove_temp_and_reraise_shape:
  assumes "remove_temp_and_reraise tp e w = (r, w')"
  shows "\<exists>rm. trace w' = trace w @ cleanup_calls tp rm \<and>
           r = Inl (case rm of None \<Rightarrow> e | Some x \<Rightarrow> if x = FileNotFoundError then e else x)"
proof -
  obtain r1 w1 where rm: "os_remove tp w = (r1, w1)" by force
  from os_remove_trace[OF rm] have t: "trace w1 = trace w @ [(EvRemove tp, outcome r1)]" .
  show ?thesis
  proof (cases r1)
    case (Inl e')
    with rm assms t show ?thesis
      by (intro exI[of _ "Some e'"])
         (auto simp: remove_temp_and_reraise_def io_bind_def logging_warning_def io_raise_def
            cleanup_calls_def log_call_def outcome_def)
  next
    case (Inr u)
    with rm assms t show ?thesis
      by (intro exI[of _ None])
         (auto simp: remove_temp_and_reraise_def cleanup_calls_def outcome_def)
  qed
qed

text \<open>What the calls that succeed leave in the files.\<close>

lemma prim_ok:
  assumes "prim ev eff w = (Inr x, w')"
  obtains w1 where "eff (w\<lparr>faults := tl (faults w)\<rparr>) = (Inr x, w1)" "w' = log_call ev None w1"
  using assms by (auto simp: prim_def split: option.splits prod.splits sum.splits)

lemma prim_files:
  assumes "prim ev eff w = (r, w')"
    and "\<And>w0 r0 w1. eff w0 = (r0, w1) \<Longrightarrow> files w1 = files w0"
  shows "files w' = files w"
proof (cases "next_fault w")
  case (Some e)
  with assms(1) show ?thesis by (auto simp: prim_def log_call_def)
next
  case None
  obtain r0 w1 where e: "eff (w\<lparr>faults := tl (faults w)\<rparr>) = (r0, w1)" by force
  from assms(2)[OF e] have "files w1 = files w" by simp
  with None e assms(1) show ?thesis
    by (cases r0) (auto simp: prim_def log_call_def)
qed

lemma fd_flush_files: "fd_flush p w = (r, w') \<Longrightarrow> files w' = files w"
  unfolding fd_flush_def by (erule prim_files) (auto simp: io_return_def)

lemma os_fsync_files: "os_fsync p w = (r, w') \<Longrightarrow> files w' = files w"
  unfolding os_fsync_def by (erule prim_files) (auto simp: io_return_def)

lemma fd_close_files: "fd_close p w = (r, w') \<Longrightarrow> files w' = files w"
  unfolding fd_close_def by (erule prim_files) (auto simp: io_return_def)

lemma os_open_dir_files: "os_open_dir p w = (r, w') \<Longrightarrow> files w' = files w"
  unfolding os_open_dir_def by (erule prim_files) (auto simp: io_return_def)

lemma fd_write_ok:
  "fd_write p b w = (Inr u, w') \<Longrightarrow> files w' = (files w)(p \<mapsto> file_content w p @ b)"
  unfolding fd_write_def by (erule prim_ok) (auto simp: log_call_def file_content_def)

lemma open_wb_ok: "open_wb p w = (Inr u, w') \<Longrightarrow> files w' = (files w)(p \<mapsto> [])"
  unfolding open_wb_def by (erule prim_ok) (auto simp: log_call_def)

lemma os_replace_ok:
  "os_replace src dst w = (Inr u, w') \<Longrightarrow>
     \<exists>c. files w src = Some c \<and> files w' = ((files w)(src := None))(dst \<mapsto> c)"
  unfolding os_replace_def
  by (erule prim_ok) (auto simp: log_call_def split: option.splits)

lemma dropWhile_Cons_D: "dropWhile P xs = y # ys \<Longrightarrow> y \<in> set xs \<and> \<not> P y"
  by (metis hd_dropWhile list.distinct(1) list.sel(1) list.set_intros(1) set_dropWhileD)

lemma mkstemp_ok:
  "NamedTemporaryFile d pre suf w = (Inr tp, w') \<Longrightarrow>
     (\<exists>r \<in> set (rand_names w). tp = temp_path d pre suf r) \<and> files w tp = None \<and>
     files w' = (files w)(tp \<mapsto> [])"
  unfolding NamedTemporaryFile_def
  by (erule prim_ok) (auto split: list.splits simp: log_call_def dest!: dropWhile_Cons_D)

lemma write_flush_fsync_ok:
  assumes "write_flush_fsync p b w = (Inr u, w')"
  shows "files w' = (files w)(p \<mapsto> file_content w p @ b)"
proof -
  from assms obtain r1 w1 rc where
    body: "io_bind (fd_write p b) (\<lambda>_. io_bind (fd_flush p) (\<lambda>_. os_fsync p)) w = (r1, w1)"
    and cl: "fd_close p w1 = (rc, w')"
    and r: "Inr u = (case rc of Inl e \<Rightarrow> Inl e | Inr _ \<Rightarrow> r1)"
    unfolding write_flush_fsync_def by (rule io_finally_cases)
  from r have r1: "r1 = Inr u" by (cases rc) simp_all
  from body[unfolded r1] obtain x w2 y w3 where
    "fd_write p b w = (Inr x, w2)" "fd_flush p w2 = (Inr y, w3)" "os_fsync p w3 = (Inr u, w1)"
    by (auto elim!: io_bind_cases)
  with cl show ?thesis
    by (simp add: fd_write_ok fd_flush_files os_fsync_files fd_close_files)
qed

lemma fsync_directory_files:
  assumes "fsync_directory dn w = (r, w')"
  shows "files w' = files w"
proof (cases dn)
  case None
  with assms show ?thesis by (simp add: fsync_directory_def io_raise_def)
next
  case (Some d)
  with assms have b: "io_bind (os_open_dir d) (\<lambda>_. io_finally (os_fsync d) (fd_close d)) w = (r, w')"
    by (simp add: fsync_directory_def)
  then show ?thesis
  proof (cases rule: io_bind_cases)
    case (failed e)
    then show ?thesis by (simp add: os_open_dir_files)
  next
    case (went_on x w1)
    from went_on(2) obtain r1 w2 rc where "os_fsync d w1 = (r1, w2)" "fd_close d w2 = (rc, w')"
      by (rule io_finally_cases)
    then have "files w' = files w1" by (simp add: os_fsync_files fd_close_files)
    with went_on(1) show ?thesis by (simp add: os_open_dir_files)
  qed
qed

lemma direct_write_ok:
  assumes "direct_write f b w = (Inr u, w')"
  shows "files w' f = Some b \<and>
         trace w' = trace w @ succeeded [EvOpenWrite f, EvWrite f b, EvFlush f, EvFsync f, EvClose f]"
proof -
  from assms obtain x w1 where o: "open_wb f w = (Inr x, w1)"
    and b: "write_flush_fsync f b w1 = (Inr u, w')"
    unfolding direct_write_def by (auto elim!: io_bind_cases)
  from open_wb_ok[OF o] have "file_content w1 f = []" by (simp add: file_content_def)
  with write_flush_fsync_ok[OF b] have "files w' f = Some b" by simp
  moreover from open_wb_trace[OF o] write_flush_fsync_shape[OF b]
  have "trace w' = trace w @ succeeded [EvOpenWrite f, EvWrite f b, EvFlush f, EvFsync f, EvClose f]"
    by (auto simp: succeeded_def outcome_def)
  ultimately show ?thesis by simp
qed

lemma atomic_write_cases:
  assumes "atomic_write dn bn f payload w = (r, w')"
  obtains (no_basename) "bn = None" "r = Inl TypeError" "w' = w"
    | (no_temp) b e where "bn = Some b"
        "NamedTemporaryFile (case dn of None \<Rightarrow> tempdir w | Some d \<Rightarrow> d) (b @ ''_'') ''.tmp'' w
           = (Inl e, w')" "r = Inl e"
    | (cleaned) b tp w1 e w2 where "bn = Some b"
        "NamedTemporaryFile (case dn of None \<Rightarrow> tempdir w | Some d \<Rightarrow> d) (b @ ''_'') ''.tmp'' w
           = (Inr tp, w1)"
        "write_temp_and_rename dn tp f payload w1 = (Inl e, w2)"
        "remove_temp_and_reraise tp e w2 = (r, w')"
    | (completed) b tp w1 u where "bn = Some b"
        "NamedTemporaryFile (case dn of None \<Rightarrow> tempdir w | Some d \<Rightarrow> d) (b @ ''_'') ''.tmp'' w
           = (Inr tp, w1)"
        "write_temp_and_rename dn tp f payload w1 = (Inr u, w')" "r = Inr u"
proof (cases bn)
  case None
  with assms no_basename show ?thesis by (simp add: atomic_write_def)
next
  case (Some b)
  let ?d = "case dn of None \<Rightarrow> tempdir w | Some d \<Rightarrow> d"
  obtain r1 w1 where n: "NamedTemporaryFile ?d (b @ ''_'') ''.tmp'' w = (r1, w1)" by force
  show ?thesis
  proof (cases r1)
    case (Inl e)
    with assms Some n have "r = Inl e" "w' = w1" by (simp_all add: atomic_write_def)
    with no_temp[OF Some] n Inl show ?thesis by simp
  next
    case (Inr tp)
    obtain r2 w2 where wt: "write_temp_and_rename dn tp f payload w1 = (r2, w2)" by force
    show ?thesis
    proof (cases r2)
      case (Inl e)
      with assms Some n \<open>r1 = Inr tp\<close> wt
      have "remove_temp_and_reraise tp e w2 = (r, w')" by (simp add: atomic_write_def)
      with cleaned[OF Some] n \<open>r1 = Inr tp\<close> wt Inl show ?thesis by simp
    next
      case (Inr u)
      with assms Some n \<open>r1 = Inr tp\<close> wt
      have "r = Inr u" "w' = w2" by (simp_all add: atomic_write_def)
      with completed[OF Some] n \<open>r1 = Inr tp\<close> wt Inr show ?thesis by simp
    qed
  qed
qed

lemma atomic_write_ok_files:
  assumes "atomic_write dn bn f payload w = (Inr u, w')"
  shows "files w' f = Some payload"
  using assms
proof (cases rule: atomic_write_cases)
  case (cleaned b tp w1 e w2)
  from remove_temp_and_reraise_shape[OF cleaned(4)] show ?thesis by simp
next
  case (completed b tp w1 u')
  from mkstemp_ok[OF completed(2)] have c: "file_content w1 tp = []"
    by (simp add: file_content_def)
  from completed(3) show ?thesis
  proof (cases rule: write_temp_and_rename_cases)
    case (renamed u1 w2 u2 w3)
    from write_flush_fsync_ok[OF renamed(1)] c have "files w2 tp = Some payload" by simp
    with os_replace_ok[OF renamed(2)] have "files w3 f = Some payload" by auto
    with fsync_directory_files[OF renamed(3)] show ?thesis by simp
  qed simp_all
qed simp_all

text \<open>The atomic branch, call by call, for a node whose directory and base name are set.\<close>

lemma atomic_write_shape:
  assumes "atomic_write (Some d) (Some b) f payload w = (r, w')"
  shows "\<exists>new. trace w' = trace w @ new \<and>
     (case r of
        Inr _ \<Rightarrow> \<exists>tp. new_temp d b tp w \<and> new = succeeded (atomic_protocol d b tp f payload)
      | Inl e \<Rightarrow>
          new = failed_flush_calls d b [] f payload 0 e None None \<or>
          (\<exists>tp k e0 c rm. new_temp d b tp w \<and> 1 \<le> k \<and> k < 9 \<and>
             new = failed_flush_calls d b tp f payload k e0 c rm \<and>
             e = failed_flush_error k e0 c rm))"
  using assms
proof (cases rule: atomic_write_cases)
  case (no_temp b' e)
  then have b': "b' = b" by simp
  from mkstemp_trace[OF no_temp(2)[simplified]] no_temp(3) b' show ?thesis
    by (simp add: failed_flush_calls_def atomic_protocol_def succeeded_def outcome_def)
next
  case (cleaned b' tp w1 e w2)
  then have b': "b' = b" by simp
  from mkstemp_ok[OF cleaned(2)[simplified]] b' have nt: "new_temp d b tp w"
    by (auto simp: new_temp_def temp_path_def)
  from mkstemp_trace[OF cleaned(2)[simplified]] b'
  have t1: "trace w1 = trace w @ [(EvMkstemp d (b @ ''_'') ''.tmp'', None)]"
    by (simp add: outcome_def)
  from write_temp_and_rename_failed[OF cleaned(3), of b] obtain new k e0 c where
    t2: "trace w2 = trace w1 @ new" and k: "1 \<le> k" "k < 9"
    and e: "e = failed_flush_error k e0 c None"
    and calls: "\<And>rm. (EvMkstemp d (b @ ''_'') ''.tmp'', None) # new @ cleanup_calls tp rm
                  = failed_flush_calls d b tp f payload k e0 c rm"
    by blast
  from remove_temp_and_reraise_shape[OF cleaned(4)] obtain rm where
    t3: "trace w' = trace w2 @ cleanup_calls tp rm"
    and r: "r = Inl (case rm of None \<Rightarrow> e | Some x \<Rightarrow> if x = FileNotFoundError then e else x)"
    by blast
  from t1 t2 t3 calls[of rm]
  have tr: "trace w' = trace w @ failed_flush_calls d b tp f payload k e0 c rm" by simp
  from e k have "(case rm of None \<Rightarrow> e | Some x \<Rightarrow> if x = FileNotFoundError then e else x)
                 = failed_flush_error k e0 c rm"
    by (simp add: failed_flush_error_def Let_def split: option.splits)
  with r have r': "r = Inl (failed_flush_error k e0 c rm)" by simp
  from nt k have "\<exists>tp' k' e0' c' rm'. new_temp d b tp' w \<and> 1 \<le> k' \<and> k' < 9 \<and>
      failed_flush_calls d b tp f payload k e0 c rm
        = failed_flush_calls d b tp' f payload k' e0' c' rm' \<and>
      failed_flush_error k e0 c rm = failed_flush_error k' e0' c' rm'"
    by blast
  with tr show ?thesis unfolding r'
    by (intro exI[of _ "failed_flush_calls d b tp f payload k e0 c rm"]) simp
next
  case (completed b' tp w1 u)
  then have b': "b' = b" by simp
  from mkstemp_ok[OF completed(2)[simplified]] b' have nt: "new_temp d b tp w"
    by (auto simp: new_temp_def temp_path_def)
  from mkstemp_trace[OF completed(2)[simplified]] b'
  have t1: "trace w1 = trace w @ [(EvMkstemp d (b @ ''_'') ''.tmp'', None)]"
    by (simp add: outcome_def)
  from write_temp_and_rename_ok[OF completed(3), of b] t1
  have "trace w' = trace w @ succeeded (atomic_protocol d b tp f payload)"
    by (simp add: succeeded_def atomic_protocol_def)
  with nt completed(4) show ?thesis
    by (intro exI[of _ "succeeded (atomic_protocol d b tp f payload)"]) auto
qed simp

text \<open>With an empty fault schedule every call has its effect.\<close>

lemma no_faults_tl: "faults w = [] \<Longrightarrow> w\<lparr>faults := tl (faults w)\<rparr> = w"
  by (cases w) simp

lemma prim_quiet:
  assumes "faults w = []" and "eff w = (Inr x, wa)" and "faults wa = []"
  shows "prim ev eff w = (Inr x, log_call ev None wa) \<and> faults (log_call ev None wa) = []"
proof -
  from assms(1) have e: "w\<lparr>faults := tl (faults w)\<rparr> = w" by (rule no_faults_tl)
  from assms(1) have nf: "next_fault w = None" by (simp add: next_fault_def)
  show ?thesis unfolding prim_def nf e using assms(2,3) by (simp add: log_call_def)
qed

lemma prim_quiet_ex:
  assumes "faults w = []" and "\<exists>w1. eff w = (Inr x, w1) \<and> faults w1 = []"
  shows "\<exists>w'. prim ev eff w = (Inr x, w') \<and> faults w' = []"
proof -
  from assms(2) obtain w1 where w1: "eff w = (Inr x, w1)" "faults w1 = []" by blast
  have "prim ev eff w = (Inr x, log_call ev None w1) \<and> faults (log_call ev None w1) = []"
    using assms(1) w1 by (rule prim_quiet[where eff = eff and w = w and wa = w1])
  then show ?thesis by blast
qed

lemma fd_write_quiet:
  "faults w = [] \<Longrightarrow> \<exists>w'. fd_write p b w = (Inr (), w') \<and> faults w' = []"
  unfolding fd_write_def by (rule prim_quiet_ex) simp_all

lemma fd_flush_quiet:
  "faults w = [] \<Longrightarrow> \<exists>w'. fd_flush p w = (Inr (), w') \<and> faults w' = []"
  unfolding fd_flush_def io_return_def by (rule prim_quiet_ex) simp_all

lemma os_fsync_quiet:
  "faults w = [] \<Longrightarrow> \<exists>w'. os_fsync p w = (Inr (), w') \<and> faults w' = []"
  unfolding os_fsync_def io_return_def by (rule prim_quiet_ex) simp_all

lemma fd_close_quiet:
  "faults w = [] \<Longrightarrow> \<exists>w'. fd_close p w = (Inr (), w') \<and> faults w' = []"
  unfolding fd_close_def io_return_def by (rule prim_quiet_ex) simp_all

lemma os_open_dir_quiet:
  "faults w = [] \<Longrightarrow> \<exists>w'. os_open_dir p w = (Inr (), w') \<and> faults w' = []"
  unfolding os_open_dir_def io_return_def by (rule prim_quiet_ex) simp_all

lemma open_wb_quiet:
  "faults w = [] \<Longrightarrow> \<exists>w'. open_wb p w = (Inr (), w') \<and> faults w' = []"
  unfolding open_wb_def by (rule prim_quiet_ex) simp_all

lemma os_replace_quiet:
  assumes "faults w = []" and "files w src \<noteq> None"
  shows "\<exists>w'. os_replace src dst w = (Inr (), w') \<and> faults w' = []"
proof -
  from assms(2) obtain c where c: "files w src = Some c" by blast
  let ?w1 = "w\<lparr>files := ((files w)(src := None))(dst \<mapsto> c)\<rparr>"
  from assms(1) c
  have "prim (EvReplace src dst)
          (\<lambda>w. case files w src of
                  None \<Rightarrow> (Inl FileNotFoundError, w)
                | Some c \<Rightarrow> (Inr (), w\<lparr>files := ((files w)(src := None))(dst \<mapsto> c)\<rparr>)) w
        = (Inr (), log_call (EvReplace src dst) None ?w1) \<and>
        faults (log_call (EvReplace src dst) None ?w1) = []"
    by (intro prim_quiet) simp_all
  then show ?thesis unfolding os_replace_def by blast
qed

lemma mkstemp_quiet:
  assumes "faults w = []" and "\<exists>r \<in> set (rand_names w). files w (temp_path d pre suf r) = None"
  shows "\<exists>tp w'. NamedTemporaryFile d pre suf w = (Inr tp, w') \<and> faults w' = []"
proof -
  let ?taken = "\<lambda>r. files w (temp_path d pre suf r) \<noteq> None"
  from assms(2) have "dropWhile ?taken (rand_names w) \<noteq> []"
    by (auto simp: dropWhile_eq_Nil_conv)
  then obtain r rs where dw: "dropWhile ?taken (rand_names w) = r # rs"
    by (cases "dropWhile ?taken (rand_names w)") auto
  let ?w1 = "w\<lparr>files := (files w)(temp_path d pre suf r \<mapsto> []), rand_names := rs\<rparr>"
  from assms(1) dw
  have "prim (EvMkstemp d pre suf)
          (\<lambda>w. case dropWhile (\<lambda>r. files w (temp_path d pre suf r) \<noteq> None) (rand_names w) of
                  [] \<Rightarrow> (Inl FileExistsError, w\<lparr>rand_names := []\<rparr>)
                | r # rs \<Rightarrow>
                    (Inr (temp_path d pre suf r),
                     w\<lparr>files := (files w)(temp_path d pre suf r \<mapsto> []), rand_names := rs\<rparr>)) w
        = (Inr (temp_path d pre suf r), log_call (EvMkstemp d pre suf) None ?w1) \<and>
        faults (log_call (EvMkstemp d pre suf) None ?w1) = []"
    by (intro prim_quiet) simp_all
  then show ?thesis unfolding NamedTemporaryFile_def by blast
qed

lemma write_flush_fsync_quiet:
  assumes "faults w = []"
  shows "\<exists>w'. write_flush_fsync p b w = (Inr (), w') \<and> faults w' = []"
proof -
  from fd_write_quiet[OF assms] obtain w1 where
    1: "fd_write p b w = (Inr (), w1)" "faults w1 = []" by blast
  from fd_flush_quiet[OF 1(2)] obtain w2 where
    2: "fd_flush p w1 = (Inr (), w2)" "faults w2 = []" by blast
  from os_fsync_quiet[OF 2(2)] obtain w3 where
    3: "os_fsync p w2 = (Inr (), w3)" "faults w3 = []" by blast
  from fd_close_quiet[OF 3(2)] obtain w4 where
    4: "fd_close p w3 = (Inr (), w4)" "faults w4 = []" by blast
  from 1 2 3 4 show ?thesis
    by (simp add: write_flush_fsync_def io_finally_def io_bind_def)
qed

lemma fsync_directory_quiet:
  assumes "faults w = []"
  shows "\<exists>w'. fsync_directory (Some d) w = (Inr (), w') \<and> faults w' = []"
proof -
  from os_open_dir_quiet[OF assms] obtain w1 where
    1: "os_open_dir d w = (Inr (), w1)" "faults w1 = []" by blast
  from os_fsync_quiet[OF 1(2)] obtain w2 where
    2: "os_fsync d w1 = (Inr (), w2)" "faults w2 = []" by blast
  from fd_close_quiet[OF 2(2)] obtain w3 where
    3: "fd_close d w2 = (Inr (), w3)" "faults w3 = []" by blast
  from 1 2 3 show ?thesis
    by (simp add: fsync_directory_def io_finally_def io_bind_def)
qed

lemma direct_write_quiet:
  assumes "faults w = []"
  shows "\<exists>w'. direct_write f b w = (Inr (), w')"
proof -
  from open_wb_quiet[OF assms] obtain w1 where
    1: "open_wb f w = (Inr (), w1)" "faults w1 = []" by blast
  from write_flush_fsync_quiet[OF 1(2)] obtain w2 where
    2: "write_flush_fsync f b w1 = (Inr (), w2)" by blast
  from 1 2 show ?thesis by (simp add: direct_write_def io_bind_def)
qed

lemma atomic_write_quiet:
  assumes "faults w = []"
    and "\<exists>r \<in> set (rand_names w). files w (temp_path d (b @ ''_'') ''.tmp'' r) = None"
  shows "\<exists>w'. atomic_write (Some d) (Some b) f payload w = (Inr (), w')"
proof -
  from mkstemp_quiet[OF assms] obtain tp w1 where
    1: "NamedTemporaryFile d (b @ ''_'') ''.tmp'' w = (Inr tp, w1)" "faults w1 = []" by blast
  from mkstemp_ok[OF 1(1)] have f1: "files w1 tp = Some []" by simp
  from write_flush_fsync_quiet[OF 1(2)] obtain w2 where
    2: "write_flush_fsync tp payload w1 = (Inr (), w2)" "faults w2 = []" by blast
  from write_flush_fsync_ok[OF 2(1)] have "files w2 tp \<noteq> None" by simp
  from os_replace_quiet[OF 2(2) this] obtain w3 where
    3: "os_replace tp f w2 = (Inr (), w3)" "faults w3 = []" by blast
  from fsync_directory_quiet[OF 3(2)] obtain w4 where
    4: "fsync_directory (Some d) w3 = (Inr (), w4)" by blast
  from 2 3 4 have "write_temp_and_rename (Some d) tp f payload w1 = (Inr (), w4)"
    by (simp add: write_temp_and_rename_def io_bind_def)
  with 1 show ?thesis by (simp add: atomic_write_def)
qed

section \<open>The committer\<close>

text \<open>The three ways \<open>committer_work\<close> ends.\<close>

lemma committer_work_idle:
  "durability_level m = VOLATILE \<or> sketch_file m = None \<or> \<not> is_dirty m \<Longrightarrow>
     committer_work lib m w = (Inr False, m, w)"
  by (cases "sketch_file m") (auto simp: committer_work_def)

lemma committer_work_cases:
  assumes "committer_work lib m w = (r, m', w')"
  obtains (idle) "r = Inr False" "m' = m" "w' = w"
      "durability_level m = VOLATILE \<or> sketch_file m = None \<or> \<not> is_dirty m"
    | (flushed) f u where "durability_level m \<noteq> VOLATILE" "sketch_file m = Some f" "is_dirty m"
      "(if atomicity m
        then atomic_write (sketch_file_dirname m) (sketch_file_basename m) f
               (serialize_compact lib (sketch m))
        else direct_write f (serialize_compact lib (sketch m))) w = (Inr u, w')"
      "r = Inr True" "m' = m\<lparr>is_dirty := False\<rparr>"
    | (failed) f e where "durability_level m \<noteq> VOLATILE" "sketch_file m = Some f" "is_dirty m"
      "(if atomicity m
        then atomic_write (sketch_file_dirname m) (sketch_file_basename m) f
               (serialize_compact lib (sketch m))
        else direct_write f (serialize_compact lib (sketch m))) w = (Inl e, w')"
      "r = Inl e" "m' = m"
proof (cases "durability_level m = VOLATILE \<or> sketch_file m = None \<or> \<not> is_dirty m")
  case True
  from committer_work_idle[OF True, of lib w] assms have "r = Inr False" "m' = m" "w' = w"
    by simp_all
  with True idle show ?thesis by blast
next
  case False
  then obtain f where f: "durability_level m \<noteq> VOLATILE" "sketch_file m = Some f" "is_dirty m"
    by auto
  let ?flush = "if atomicity m
        then atomic_write (sketch_file_dirname m) (sketch_file_basename m) f
               (serialize_compact lib (sketch m))
        else direct_write f (serialize_compact lib (sketch m))"
  obtain r1 w1 where wr: "?flush w = (r1, w1)" by force
  show ?thesis
  proof (cases r1)
    case (Inl e)
    with assms f wr have "r = Inl e" "m' = m" "w' = w1"
      by (simp_all add: committer_work_def)
    with failed[OF f] wr Inl show ?thesis by simp
  next
    case (Inr u)
    with assms f wr have "r = Inr True" "m' = m\<lparr>is_dirty := False\<rparr>" "w' = w1"
      by (simp_all add: committer_work_def)
    with flushed[OF f] wr Inr show ?thesis by simp
  qed
qed

text \<open>A flush that returns has written the sketch file, and every call it made succeeded.\<close>

lemma flushed_file_and_calls:
  assumes "(if a then atomic_write (Some d) (Some b) f payload else direct_write f payload) w
             = (Inr u, w')"
  shows "files w' f = Some payload \<and>
         (\<exists>new. trace w' = trace w @ new \<and> new \<noteq> [] \<and> (\<forall>c \<in> set new. snd c = None))"
proof (cases a)
  case True
  with assms have aw: "atomic_write (Some d) (Some b) f payload w = (Inr u, w')" by simp
  from atomic_write_shape[OF aw] obtain tp where
    "trace w' = trace w @ succeeded (atomic_protocol d b tp f payload)" by auto
  moreover have "succeeded (atomic_protocol d b tp f payload) \<noteq> []"
    "\<forall>c \<in> set (succeeded (atomic_protocol d b tp f payload)). snd c = None"
    by (auto simp: succeeded_def atomic_protocol_def)
  ultimately show ?thesis using atomic_write_ok_files[OF aw] by blast
next
  case False
  with assms have dw: "direct_write f payload w = (Inr u, w')" by simp
  from direct_write_ok[OF dw]
  have "files w' f = Some payload"
    "trace w' = trace w @ succeeded [EvOpenWrite f, EvWrite f payload, EvFlush f, EvFsync f, EvClose f]"
    by simp_all
  moreover have "succeeded [EvOpenWrite f, EvWrite f payload, EvFlush f, EvFsync f, EvClose f] \<noteq> []"
    "\<forall>c \<in> set (succeeded [EvOpenWrite f, EvWrite f payload, EvFlush f, EvFsync f, EvClose f]).
       snd c = None"
    by (auto simp: succeeded_def)
  ultimately show ?thesis by blast
qed

lemma mesh_inv_paths:
  "mesh_inv m \<Longrightarrow> sketch_file m = Some f \<Longrightarrow>
     sketch_file_dirname m = Some (or_dot (fst (os_path_split f))) \<and>
     sketch_file_basename m = Some (snd (os_path_split f))"
  by (simp add: mesh_inv_def)

text \<open>What a persisting, dirty node gets from \<open>committer_work\<close>.\<close>

lemma committer_work_dirty:
  assumes "mesh_inv m" "durability_level m \<noteq> VOLATILE" "is_dirty m"
    and "committer_work lib m w = (r, m', w')"
  shows "(\<exists>e. r = Inl e \<and> m' = m) \<or>
         (r = Inr True \<and> m' = m\<lparr>is_dirty := False\<rparr> \<and>
          (\<exists>f. sketch_file m = Some f \<and> files w' f = Some (serialize_compact lib (sketch m))) \<and>
          (\<exists>new. trace w' = trace w @ new \<and> new \<noteq> [] \<and> (\<forall>c \<in> set new. snd c = None)))"
  using assms(4)
proof (cases rule: committer_work_cases)
  case idle
  with assms(1-3) show ?thesis by (auto simp: mesh_inv_def)
next
  case (flushed f u)
  from mesh_inv_paths[OF assms(1) flushed(2)] flushed(4)
  have "(if atomicity m
         then atomic_write (Some (or_dot (fst (os_path_split f)))) (Some (snd (os_path_split f))) f
                (serialize_compact lib (sketch m))
         else direct_write f (serialize_compact lib (sketch m))) w = (Inr u, w')"
    by (cases "atomicity m") simp_all
  from flushed_file_and_calls[OF this] flushed show ?thesis by simp
next
  case (failed f e)
  then show ?thesis by simp
qed

lemma committer_work_quiet:
  assumes "mesh_inv m" "durability_level m \<noteq> VOLATILE" "is_dirty m" "sketch_file m = Some f"
    and "faults w = []"
    and "atomicity m \<longrightarrow>
           (\<exists>r \<in> set (rand_names w).
              files w (os_path_join (or_dot (fst (os_path_split f)))
                         (snd (os_path_split f) @ ''_'' @ r @ ''.tmp'')) = None)"
  shows "fst (committer_work lib m w) = Inr True"
proof (cases "atomicity m")
  case True
  with assms(6) have "\<exists>r \<in> set (rand_names w).
      files w (temp_path (or_dot (fst (os_path_split f))) (snd (os_path_split f) @ ''_'') ''.tmp'' r)
        = None"
    by (simp add: temp_path_def)
  from atomic_write_quiet[OF assms(5) this] obtain w1 where
    "atomic_write (Some (or_dot (fst (os_path_split f)))) (Some (snd (os_path_split f))) f
       (serialize_compact lib (sketch m)) w = (Inr (), w1)"
    by blast
  with mesh_inv_paths[OF assms(1,4)] True assms(2-4)
  show ?thesis by (simp add: committer_work_def)
next
  case False
  from direct_write_quiet[OF assms(5)] obtain w1 where
    "direct_write f (serialize_compact lib (sketch m)) w = (Inr (), w1)"
    by blast
  with False assms(2-4) show ?thesis by (simp add: committer_work_def)
qed

text \<open>
  C1. For every node the constructor can have built (\<open>mesh_inv\<close>): \<open>committer_work\<close>
  changes nothing and returns false when durability is VOLATILE or the dirty flag is
  false. Otherwise it either raises, leaving the node as it was and so still dirty, or
  returns true with the dirty flag cleared, the sketch file holding the compact
  serialization of the sketch, and every call it made having succeeded; and it does
  return true when no call fails (and, for an atomic flush, a fresh temporary name is
  left to draw).
\<close>

theorem committer_work_flushes_when_dirty:
  assumes "mesh_inv m"
  shows "(durability_level m = VOLATILE \<or> \<not> is_dirty m \<longrightarrow>
            committer_work lib m w = (Inr False, m, w)) \<and>
         (durability_level m \<noteq> VOLATILE \<and> is_dirty m \<longrightarrow>
            (\<exists>f. sketch_file m = Some f \<and>
               (case committer_work lib m w of
                  (Inl e, m', w') \<Rightarrow> m' = m \<and> is_dirty m'
                | (Inr b, m', w') \<Rightarrow>
                    b \<and> m' = m\<lparr>is_dirty := False\<rparr> \<and>
                    files w' f = Some (serialize_compact lib (sketch m)) \<and>
                    (\<exists>new. trace w' = trace w @ new \<and> new \<noteq> [] \<and>
                            (\<forall>c \<in> set new. snd c = None))) \<and>
               (faults w = [] \<and>
                (atomicity m \<longrightarrow>
                   (\<exists>r \<in> set (rand_names w).
                      files w (os_path_join (or_dot (fst (os_path_split f)))
                                 (snd (os_path_split f) @ ''_'' @ r @ ''.tmp'')) = None)) \<longrightarrow>
                fst (committer_work lib m w) = Inr True)))"
proof (intro conjI impI)
  assume "durability_level m = VOLATILE \<or> \<not> is_dirty m"
  then show "committer_work lib m w = (Inr False, m, w)"
    by (intro committer_work_idle) blast
next
  assume a: "durability_level m \<noteq> VOLATILE \<and> is_dirty m"
  with assms obtain f where f: "sketch_file m = Some f" by (auto simp: mesh_inv_def)
  obtain r m' w' where cw: "committer_work lib m w = (r, m', w')"
    by (cases "committer_work lib m w") auto
  from committer_work_dirty[OF assms _ _ cw] a f
  have A: "case committer_work lib m w of
          (Inl e, m', w') \<Rightarrow> m' = m \<and> is_dirty m'
        | (Inr b, m', w') \<Rightarrow>
            b \<and> m' = m\<lparr>is_dirty := False\<rparr> \<and>
            files w' f = Some (serialize_compact lib (sketch m)) \<and>
            (\<exists>new. trace w' = trace w @ new \<and> new \<noteq> [] \<and> (\<forall>c \<in> set new. snd c = None))"
    unfolding cw by auto
  have B: "faults w = [] \<and>
                (atomicity m \<longrightarrow>
                   (\<exists>r \<in> set (rand_names w).
                      files w (os_path_join (or_dot (fst (os_path_split f)))
                                 (snd (os_path_split f) @ ''_'' @ r @ ''.tmp'')) = None)) \<longrightarrow>
                fst (committer_work lib m w) = Inr True"
    using committer_work_quiet[OF assms _ _ f, of w lib] a by blast
  show "\<exists>f. sketch_file m = Some f \<and>
               (case committer_work lib m w of
                  (Inl e, m', w') \<Rightarrow> m' = m \<and> is_dirty m'
                | (Inr b, m', w') \<Rightarrow>
                    b \<and> m' = m\<lparr>is_dirty := False\<rparr> \<and>
                    files w' f = Some (serialize_compact lib (sketch m)) \<and>
                    (\<exists>new. trace w' = trace w @ new \<and> new \<noteq> [] \<and>
                            (\<forall>c \<in> set new. snd c = None))) \<and>
               (faults w = [] \<and>
                (atomicity m \<longrightarrow>
                   (\<exists>r \<in> set (rand_names w).
                      files w (os_path_join (or_dot (fst (os_path_split f)))
                                 (snd (os_path_split f) @ ''_'' @ r @ ''.tmp'')) = None)) \<longrightarrow>
                fst (committer_work lib m w) = Inr True)"
    by (rule exI[of _ f], rule conjI[OF f], rule conjI[OF A B])
qed

lemma strict_node_inv: "mesh_inv (strict_node\<lparr>is_dirty := d, sketch := s\<rparr>)"
  by (simp add: mesh_inv_def strict_node_def node0_def split_tmp_s1 or_dot_def)

lemma node0_inv: "mesh_inv node0"
  by (simp add: mesh_inv_def node0_def)

theorem committer_work_flushes_when_dirty_witness:
  "mesh_inv node0 \<and> mesh_inv (strict_node\<lparr>is_dirty := True, sketch := [5]\<rparr>) \<and>
   committer_work toy_sketches node0 quiet_world = (Inr False, node0, quiet_world) \<and>
   fst (committer_work toy_sketches (strict_node\<lparr>is_dirty := True, sketch := [5]\<rparr>) quiet_world)
     = Inr True"
  using committer_work_flushes_when_dirty [OF node0_inv, of toy_sketches quiet_world]
        committer_work_flushes_when_dirty
          [OF strict_node_inv [where d = True and s = "[5]"], of toy_sketches quiet_world]
        node0_inv strict_node_inv [where d = True and s = "[5]"]
  by (simp add: node0_def strict_node_def quiet_world_def)

text \<open>
  C4. A flush with the atomicity flag on makes the calls of the atomic write protocol, in
  order: it creates a new file \<open>tp\<close> named \<open><basename>_<random>.tmp\<close> in the directory of
  the target, writes the whole compact serialization to it, flushes and \<^verbatim>\<open>fsync\<close>s it,
  closes it, renames it over the target, then opens, \<^verbatim>\<open>fsync\<close>s and closes the directory.
  When it returns, exactly these calls were made and all succeeded. When it raises, either
  the creation of the temporary file failed and nothing else was called, or a later step
  \<open>k\<close> failed after the steps before it had succeeded, and then the removal of \<open>tp\<close> was
  called before the error left; when the removal found the file gone, a warning was logged
  and the error that was caught is the one raised.
\<close>

theorem atomic_flush_follows_protocol:
  assumes "mesh_inv m" and "durability_level m \<noteq> VOLATILE" and "is_dirty m"
    and "atomicity m" and "sketch_file m = Some f"
  shows "let d = or_dot (fst (os_path_split f)); b = snd (os_path_split f);
             payload = serialize_compact lib (sketch m)
         in case committer_work lib m w of
              (r, m', w') \<Rightarrow>
                (\<exists>new. trace w' = trace w @ new \<and>
                   (case r of
                      Inr _ \<Rightarrow>
                        \<exists>tp. new_temp d b tp w \<and>
                             new = succeeded (atomic_protocol d b tp f payload)
                    | Inl e \<Rightarrow>
                        new = failed_flush_calls d b [] f payload 0 e None None \<or>
                        (\<exists>tp k e0 c rm. new_temp d b tp w \<and> 1 \<le> k \<and> k < 9 \<and>
                           new = failed_flush_calls d b tp f payload k e0 c rm \<and>
                           e = failed_flush_error k e0 c rm)))"
proof -
  obtain r m' w' where cw: "committer_work lib m w = (r, m', w')"
    by (cases "committer_work lib m w") auto
  let ?d = "or_dot (fst (os_path_split f))" and ?b = "snd (os_path_split f)"
  let ?payload = "serialize_compact lib (sketch m)"
  from mesh_inv_paths[OF assms(1,5)]
  have p: "sketch_file_dirname m = Some ?d" "sketch_file_basename m = Some ?b" by simp_all
  have "\<exists>u. atomic_write (Some ?d) (Some ?b) f ?payload w = (u, w') \<and>
            (case u of Inl e \<Rightarrow> r = Inl e | Inr _ \<Rightarrow> r = Inr True)"
    using cw
  proof (cases rule: committer_work_cases)
    case idle
    with assms show ?thesis by simp
  next
    case (flushed f' u)
    with assms p show ?thesis by simp
  next
    case (failed f' e)
    with assms p show ?thesis by simp
  qed
  then obtain u where aw: "atomic_write (Some ?d) (Some ?b) f ?payload w = (u, w')"
    and u: "case u of Inl e \<Rightarrow> r = Inl e | Inr _ \<Rightarrow> r = Inr True"
    by blast
  from atomic_write_shape[OF aw] u
  have "\<exists>new. trace w' = trace w @ new \<and>
          (case r of
             Inr _ \<Rightarrow> \<exists>tp. new_temp ?d ?b tp w \<and> new = succeeded (atomic_protocol ?d ?b tp f ?payload)
           | Inl e \<Rightarrow>
               new = failed_flush_calls ?d ?b [] f ?payload 0 e None None \<or>
               (\<exists>tp k e0 c rm. new_temp ?d ?b tp w \<and> 1 \<le> k \<and> k < 9 \<and>
                  new = failed_flush_calls ?d ?b tp f ?payload k e0 c rm \<and>
                  e = failed_flush_error k e0 c rm))"
    by (cases u) auto
  then show ?thesis unfolding Let_def cw by simp
qed

text \<open>Two runs of a strictly persisting node whose sketch is dirty: one in a world where
  nothing fails, one where the flush of the temporary file (the third call) fails.\<close>

lemmas run_defs = committer_work_def toy_sketches_def
  atomic_write_def NamedTemporaryFile_def prim_def next_fault_def log_call_def temp_path_def
  os_path_join_def write_temp_and_rename_def write_flush_fsync_def io_bind_def io_finally_def
  fd_write_def fd_flush_def os_fsync_def fd_close_def os_replace_def fsync_directory_def
  os_open_dir_def io_return_def io_raise_def file_content_def
  remove_temp_and_reraise_def os_remove_def logging_warning_def

lemma atomic_flush_quiet_run:
  "case committer_work toy_sketches (strict_node\<lparr>is_dirty := True, sketch := [5]\<rparr>) quiet_world of
     (r, m', w') \<Rightarrow>
       r = Inr True \<and> m' = strict_node\<lparr>is_dirty := False, sketch := [5]\<rparr> \<and>
       trace w' = succeeded (atomic_protocol ''/tmp'' ''s1'' ''/tmp/s1_k3x9.tmp'' ''/tmp/s1'' [5]) \<and>
       files w' ''/tmp/s1'' = Some [5] \<and> files w' ''/tmp/s1_k3x9.tmp'' = None"
  by (simp add: run_defs strict_node_def node0_def quiet_world_def succeeded_def
      atomic_protocol_def)

lemma atomic_flush_failing_run:
  "case committer_work toy_sketches (strict_node\<lparr>is_dirty := True, sketch := [5]\<rparr>)
          (quiet_world\<lparr>faults := [None, None, Some OSError]\<rparr>) of
     (r, m', w') \<Rightarrow>
       r = Inl OSError \<and> m' = strict_node\<lparr>is_dirty := True, sketch := [5]\<rparr> \<and>
       trace w' = failed_flush_calls ''/tmp'' ''s1'' ''/tmp/s1_k3x9.tmp'' ''/tmp/s1'' [5]
                    2 OSError None None \<and>
       files w' ''/tmp/s1'' = None \<and> files w' ''/tmp/s1_k3x9.tmp'' = None"
  by (simp add: run_defs strict_node_def node0_def quiet_world_def succeeded_def
      atomic_protocol_def failed_flush_calls_def cleanup_calls_def)

theorem atomic_flush_follows_protocol_witness:
  "mesh_inv (strict_node\<lparr>is_dirty := True, sketch := [5]\<rparr>) \<and>
   durability_level (strict_node\<lparr>is_dirty := True, sketch := [5]\<rparr>) \<noteq> VOLATILE \<and>
   is_dirty (strict_node\<lparr>is_dirty := True, sketch := [5]\<rparr>) \<and>
   atomicity (strict_node\<lparr>is_dirty := True, sketch := [5]\<rparr>) \<and>
   sketch_file (strict_node\<lparr>is_dirty := True, sketch := [5]\<rparr>) = Some ''/tmp/s1'' \<and>
   (case committer_work toy_sketches (strict_node\<lparr>is_dirty := True, sketch := [5]\<rparr>)
           (quiet_world\<lparr>faults := [None, None, Some OSError]\<rparr>) of
      (r, m', w') \<Rightarrow>
        (\<exists>new. trace w' = new \<and>
           (case r of
              Inr _ \<Rightarrow>
                \<exists>tp. new_temp ''/tmp'' ''s1'' tp quiet_world \<and>
                     new = succeeded (atomic_protocol ''/tmp'' ''s1'' tp ''/tmp/s1'' [5])
            | Inl e \<Rightarrow>
                new = failed_flush_calls ''/tmp'' ''s1'' [] ''/tmp/s1'' [5] 0 e None None \<or>
                (\<exists>tp k e0 c rm. new_temp ''/tmp'' ''s1'' tp quiet_world \<and> 1 \<le> k \<and> k < 9 \<and>
                   new = failed_flush_calls ''/tmp'' ''s1'' tp ''/tmp/s1'' [5] k e0 c rm \<and>
                   e = failed_flush_error k e0 c rm))))"
proof -
  let ?m = "strict_node\<lparr>is_dirty := True, sketch := [5]\<rparr>"
  have h1: "mesh_inv ?m" by (rule strict_node_inv)
  have h2: "durability_level ?m \<noteq> VOLATILE" and h3: "is_dirty ?m" and h4: "atomicity ?m"
    and h5: "sketch_file ?m = Some ''/tmp/s1''"
    by (simp_all add: strict_node_def node0_def)
  have s: "serialize_compact toy_sketches (sketch ?m) = [5]"
    by (simp add: toy_sketches_def)
  have q: "trace (quiet_world\<lparr>faults := [None, None, Some OSError]\<rparr>) = []"
    "new_temp ''/tmp'' ''s1'' tp (quiet_world\<lparr>faults := [None, None, Some OSError]\<rparr>)
       = new_temp ''/tmp'' ''s1'' tp quiet_world" for tp
    by (simp_all add: quiet_world_def new_temp_def)
  from atomic_flush_follows_protocol [OF h1 h2 h3 h4 h5, of toy_sketches
         "quiet_world\<lparr>faults := [None, None, Some OSError]\<rparr>"]
  show ?thesis
    unfolding Let_def split_tmp_s1 s q using h1 h2 h3 h4 h5
    by (simp add: or_dot_def q cong: sum.case_cong prod.case_cong)
qed

section \<open>The sketch engine\<close>

lemma mesh_inv_update [simp]:
  "mesh_inv (m\<lparr>is_dirty := d\<rparr>) = mesh_inv m"
  "mesh_inv (m\<lparr>sketch := s\<rparr>) = mesh_inv m"
  by (simp_all add: mesh_inv_def)

text \<open>The committer touches nothing of the node but the dirty flag.\<close>

lemma committer_work_node:
  assumes "committer_work lib m w = (r, m', w')"
  shows "m' = m \<or> m' = m\<lparr>is_dirty := False\<rparr>"
  using assms by (cases rule: committer_work_cases) simp_all

text \<open>A synchronous flush leaves the node dirty exactly when it was dirty and the flush
  raised.\<close>

lemma strict_flush_dirty:
  assumes "mesh_inv m" and "durability_level m = STRICT"
    and "discard (committer_work lib m w) = (r, m', w')"
  shows "is_dirty m' = (is_dirty m \<and> isl r) \<and>
         (is_dirty m \<and> \<not> isl r \<longrightarrow>
            (\<exists>f. sketch_file m = Some f \<and> files w' f = Some (serialize_compact lib (sketch m))))"
proof -
  obtain r0 m0 w0 where cw: "committer_work lib m w = (r0, m0, w0)"
    by (cases "committer_work lib m w") auto
  with assms(3) have "m' = m0 \<and> w' = w0 \<and> isl r = isl r0"
    by (cases r0) (auto simp: discard_def)
  then have d: "m' = m0" "w' = w0" "isl r = isl r0" by simp_all
  show ?thesis
  proof (cases "is_dirty m")
    case True
    from committer_work_dirty[OF assms(1) _ True cw] assms(2) d True show ?thesis by auto
  next
    case False
    then have "committer_work lib m w = (Inr False, m, w)"
      by (intro committer_work_idle) simp
    with cw d False show ?thesis by simp
  qed
qed

text \<open>
  C2. For every local sketch and every inbound sketch, \<open>imerge\<close> replaces the local sketch
  with the union the library computes of the two, and sets the dirty flag to (old dirty
  flag, or the compact serialization of the union differs from the compact serialization of
  the old local sketch): the comparison is between the two byte strings. That is the node
  it leaves unless durability is STRICT; under STRICT this node is handed to the
  synchronous flush, after which the flag is still set exactly when it was set and the
  flush raised.
\<close>

theorem imerge_unions_and_marks_dirty:
  "let u = get_result lib (union_update lib (union_update lib (hll_union lib LOG_K) (sketch m)) other);
       d = (is_dirty m \<or> serialize_compact lib u \<noteq> serialize_compact lib (sketch m))
   in case imerge lib other m w of
        (r, m', w') \<Rightarrow>
          sketch m' = u \<and>
          (durability_level m \<noteq> STRICT \<longrightarrow> r = Inr () \<and> is_dirty m' = d \<and> w' = w) \<and>
          (durability_level m = STRICT \<longrightarrow>
             discard (committer_work lib (m\<lparr>is_dirty := d, sketch := u\<rparr>) w) = (r, m', w')) \<and>
          (durability_level m = STRICT \<and> mesh_inv m \<longrightarrow> is_dirty m' = (d \<and> isl r))"
proof -
  let ?u = "get_result lib (union_update lib (union_update lib (hll_union lib LOG_K) (sketch m)) other)"
  let ?d = "is_dirty m \<or> serialize_compact lib ?u \<noteq> serialize_compact lib (sketch m)"
  let ?m1 = "m\<lparr>is_dirty := ?d, sketch := ?u\<rparr>"
  obtain r m' w' where im: "imerge lib other m w = (r, m', w')"
    by (cases "imerge lib other m w") auto
  have "sketch m' = ?u \<and>
        (durability_level m \<noteq> STRICT \<longrightarrow> r = Inr () \<and> is_dirty m' = ?d \<and> w' = w) \<and>
        (durability_level m = STRICT \<longrightarrow> discard (committer_work lib ?m1 w) = (r, m', w')) \<and>
        (durability_level m = STRICT \<and> mesh_inv m \<longrightarrow> is_dirty m' = (?d \<and> isl r))"
  proof (cases "durability_level m = STRICT")
    case False
    with im show ?thesis by (auto simp: imerge_def merge_def Let_def)
  next
    case True
    with im have dc: "discard (committer_work lib ?m1 w) = (r, m', w')"
      by (simp add: imerge_def merge_def Let_def)
    obtain r0 m0 w0 where cw: "committer_work lib ?m1 w = (r0, m0, w0)"
      by (cases "committer_work lib ?m1 w") auto
    with dc have "m' = m0" by (cases r0) (simp_all add: discard_def)
    with committer_work_node[OF cw] have sk: "sketch m' = ?u" by auto
    have "mesh_inv m \<Longrightarrow> is_dirty m' = (?d \<and> isl r)"
    proof -
      assume "mesh_inv m"
      then have "mesh_inv ?m1" by simp
      from strict_flush_dirty[OF this _ dc] True show ?thesis by simp
    qed
    with sk dc True show ?thesis by simp
  qed
  then show ?thesis unfolding Let_def im by simp
qed

text \<open>Merging \<open>[1]\<close> into the sketch \<open>[1]\<close> changes the sketch in memory but not its compact
  form, and the dirty flag stays false; merging \<open>[2]\<close> sets it.\<close>

theorem imerge_unions_and_marks_dirty_witness:
  "(case imerge toy_sketches [1] (node0\<lparr>sketch := [1]\<rparr>) quiet_world of
      (r, m', w') \<Rightarrow> sketch m' = [1, 1] \<and> r = Inr () \<and> \<not> is_dirty m' \<and> w' = quiet_world) \<and>
   (case imerge toy_sketches [2] (node0\<lparr>sketch := [1]\<rparr>) quiet_world of
      (r, m', w') \<Rightarrow> sketch m' = [1, 2] \<and> r = Inr () \<and> is_dirty m' \<and> w' = quiet_world)"
  using imerge_unions_and_marks_dirty
          [where lib = toy_sketches and m = "node0\<lparr>sketch := [1]\<rparr>" and other = "[1]"
             and w = quiet_world]
        imerge_unions_and_marks_dirty
          [where lib = toy_sketches and m = "node0\<lparr>sketch := [1]\<rparr>" and other = "[2]"
             and w = quiet_world]
  by (simp add: Let_def toy_sketches_def node0_def case_prod_beta)

text \<open>
  C3. For every datum (an integer, a float or a string), \<open>update_sketch\<close> folds the datum
  into the sketch and sets the dirty flag. That is the node it leaves unless durability is
  STRICT; under STRICT this node is handed to the committer's flush before
  \<open>update_sketch\<close> returns: either the flush raised, the error reaches the caller and the
  flag is still set, or the sketch file holds the updated sketch and the flag is cleared.
\<close>

theorem update_sketch_folds_and_marks_dirty:
  "case update_sketch lib x m w of
     (r, m', w') \<Rightarrow>
       sketch m' = sk_update lib (sketch m) x \<and>
       (durability_level m \<noteq> STRICT \<longrightarrow> r = Inr () \<and> is_dirty m' \<and> w' = w) \<and>
       (durability_level m = STRICT \<longrightarrow>
          discard (committer_work lib
                     (m\<lparr>sketch := sk_update lib (sketch m) x, is_dirty := True\<rparr>) w)
            = (r, m', w')) \<and>
       (durability_level m = STRICT \<and> mesh_inv m \<longrightarrow>
          (case r of
             Inl e \<Rightarrow> is_dirty m'
           | Inr _ \<Rightarrow>
               \<not> is_dirty m' \<and>
               (\<exists>f. sketch_file m = Some f \<and>
                    files w' f = Some (serialize_compact lib (sk_update lib (sketch m) x)))))"
proof -
  let ?m1 = "m\<lparr>sketch := sk_update lib (sketch m) x, is_dirty := True\<rparr>"
  obtain r m' w' where up: "update_sketch lib x m w = (r, m', w')"
    by (cases "update_sketch lib x m w") auto
  have "sketch m' = sk_update lib (sketch m) x \<and>
       (durability_level m \<noteq> STRICT \<longrightarrow> r = Inr () \<and> is_dirty m' \<and> w' = w) \<and>
       (durability_level m = STRICT \<longrightarrow> discard (committer_work lib ?m1 w) = (r, m', w')) \<and>
       (durability_level m = STRICT \<and> mesh_inv m \<longrightarrow>
          (case r of
             Inl e \<Rightarrow> is_dirty m'
           | Inr _ \<Rightarrow>
               \<not> is_dirty m' \<and>
               (\<exists>f. sketch_file m = Some f \<and>
                    files w' f = Some (serialize_compact lib (sk_update lib (sketch m) x)))))"
  proof (cases "durability_level m = STRICT")
    case False
    with up show ?thesis by (auto simp: update_sketch_def Let_def)
  next
    case True
    with up have dc: "discard (committer_work lib ?m1 w) = (r, m', w')"
      by (simp add: update_sketch_def Let_def)
    obtain r0 m0 w0 where cw: "committer_work lib ?m1 w = (r0, m0, w0)"
      by (cases "committer_work lib ?m1 w") auto
    with dc have "m' = m0" by (cases r0) (simp_all add: discard_def)
    with committer_work_node[OF cw] have sk: "sketch m' = sk_update lib (sketch m) x" by auto
    have "mesh_inv m \<Longrightarrow>
          (case r of
             Inl e \<Rightarrow> is_dirty m'
           | Inr _ \<Rightarrow>
               \<not> is_dirty m' \<and>
               (\<exists>f. sketch_file m = Some f \<and>
                    files w' f = Some (serialize_compact lib (sk_update lib (sketch m) x))))"
    proof -
      assume "mesh_inv m"
      then have "mesh_inv ?m1" by simp
      from strict_flush_dirty[OF this _ dc] True show ?thesis by (cases r) simp_all
    qed
    with sk dc True show ?thesis by simp
  qed
  then show ?thesis unfolding up by simp
qed

lemma strict_update_quiet_run:
  "case update_sketch toy_sketches (DStr ''a'') strict_node quiet_world of
     (r, m', w') \<Rightarrow>
       r = Inr () \<and> m' = strict_node\<lparr>sketch := [1], is_dirty := False\<rparr> \<and>
       files w' ''/tmp/s1'' = Some [1]"
  by (simp add: update_sketch_def discard_def run_defs strict_node_def node0_def quiet_world_def)

theorem update_sketch_folds_and_marks_dirty_witness:
  "(case update_sketch toy_sketches (DInt 3) node0 quiet_world of
      (r, m', w') \<Rightarrow> sketch m' = [3] \<and> r = Inr () \<and> is_dirty m' \<and> w' = quiet_world) \<and>
   mesh_inv strict_node \<and>
   (case update_sketch toy_sketches (DStr ''a'') strict_node quiet_world of
      (r, m', w') \<Rightarrow>
        sketch m' = [1] \<and>
        (case r of Inl e \<Rightarrow> is_dirty m'
         | Inr _ \<Rightarrow> \<not> is_dirty m' \<and> files w' ''/tmp/s1'' = Some [1]))"
proof -
  have i: "mesh_inv strict_node"
    using strict_node_inv [where d = False and s = "[]"]
    by (simp add: strict_node_def node0_def)
  have n: "durability_level node0 = VOLATILE" "sketch node0 = []"
    "durability_level strict_node = STRICT" "sketch strict_node = []"
    "sketch_file strict_node = Some ''/tmp/s1''"
    by (simp_all add: strict_node_def node0_def)
  have t: "sk_update toy_sketches [] (DInt 3) = [3]" "sk_update toy_sketches [] (DStr ''a'') = [1]"
    "serialize_compact toy_sketches [Suc 0] = [1]"
    by (simp_all add: toy_sketches_def)
  from update_sketch_folds_and_marks_dirty
         [where lib = toy_sketches and x = "DInt 3" and m = node0 and w = quiet_world]
       update_sketch_folds_and_marks_dirty
         [where lib = toy_sketches and x = "DStr ''a''" and m = strict_node and w = quiet_world] i
  show ?thesis
    by (simp add: n t case_prod_beta cong: sum.case_cong)
qed

section \<open>The gossip round\<close>

text \<open>
  C10. \<open>try_anti_entropy\<close> catches the transport error and nothing else. When the
  exchange with a peer raises \<^verbatim>\<open>TTransportException\<close>, \<open>try_anti_entropy\<close> returns false and
  the round goes on with the next peer. When it raises any other error, the error leaves
  \<open>try_anti_entropy\<close>, the loop over the sampled peers and \<open>client_work\<close>, and the peers
  left are not contacted. A payload returned by the peer's \<^verbatim>\<open>pull\<close> that does not
  deserialize is such an error.
\<close>

theorem only_transport_errors_are_caught:
  "(anti_entropy lib host port m w = (Inl e, m1, w1) \<longrightarrow>
      (e = TTransportException \<longrightarrow>
         try_anti_entropy lib host port m w = (Inr False, m1, w1) \<and>
         client_work_loop lib ((host, port) # rest) m w = client_work_loop lib rest m1 w1) \<and>
      (e \<noteq> TTransportException \<longrightarrow>
         try_anti_entropy lib host port m w = (Inl e, m1, w1) \<and>
         client_work_loop lib ((host, port) # rest) m w = (Inl e, m1, w1))) \<and>
   (client_push host port (serialize_compact lib (sketch m)) w = (Inr u, wa) \<and>
    client_pull host port wa = (Inr b, wb) \<and> deserialize lib b = None \<longrightarrow>
      anti_entropy lib host port m w = (Inl DeserializeError, m, wb) \<and>
      try_anti_entropy lib host port m w = (Inl DeserializeError, m, wb)) \<and>
   (fst (random_sample addrs (min (length addrs) ANTI_ENTROPY_MAX_CLIENTS) (rand_idx w))
      = (host, port) # rest \<and>
    anti_entropy lib host port m
      (w\<lparr>rand_idx :=
           snd (random_sample addrs (min (length addrs) ANTI_ENTROPY_MAX_CLIENTS) (rand_idx w))\<rparr>)
      = (Inl e, m1, w1) \<and>
    e \<noteq> TTransportException \<longrightarrow>
      client_work lib addrs m w = (Inl e, m1, w1))"
  by (simp add: try_anti_entropy_def anti_entropy_def push_pull_def client_work_def Let_def)

text \<open>A round of a node with one peer: the peer answers \<^verbatim>\<open>pull\<close> with bytes that do not
  deserialize, and the error leaves the round; the peer cannot be reached, and the round
  ends normally.\<close>

lemmas rpc_defs = anti_entropy_def push_pull_def client_push_def client_pull_def
  ThriftHelper_invoke_best_effort_broadcast_def ThriftHelper_invoke_def transport_open_def
  transport_close_def logger_debug_def rpc_push_def rpc_pull_def prim_def next_fault_def
  log_call_def io_bind_def io_return_def io_raise_def

lemma bad_pull_run:
  "anti_entropy toy_sketches ''::1'' 6000 node0 (quiet_world\<lparr>pull_replies := [[7, 7]]\<rparr>) =
     (Inl DeserializeError, node0,
      quiet_world\<lparr> trace := [(EvTransportOpen ''::1'' 6000, None),
                              (EvRpcPush ''::1'' 6000 [], None),
                              (EvRpcPull ''::1'' 6000, None)],
                   transports := [(''::1'', 6000)] \<rparr>)"
  by (simp add: rpc_defs toy_sketches_def node0_def quiet_world_def)

lemma unreachable_peer_run:
  "anti_entropy toy_sketches ''::1'' 6000 node0
     (quiet_world\<lparr>faults := [Some TTransportException]\<rparr>) =
     (Inl TTransportException, node0,
      quiet_world\<lparr> trace := [(EvTransportOpen ''::1'' 6000, Some TTransportException),
                              (EvTransportClose ''::1'' 6000, None),
                              (EvLogDebug, None)] \<rparr>)"
  by (simp add: rpc_defs toy_sketches_def node0_def quiet_world_def)

theorem only_transport_errors_are_caught_witness:
  "client_work toy_sketches [(''::1'', 6000)] node0 (quiet_world\<lparr>pull_replies := [[7, 7]]\<rparr>) =
     (Inl DeserializeError, node0,
      quiet_world\<lparr> trace := [(EvTransportOpen ''::1'' 6000, None),
                              (EvRpcPush ''::1'' 6000 [], None),
                              (EvRpcPull ''::1'' 6000, None)],
                   transports := [(''::1'', 6000)] \<rparr>) \<and>
   client_work_loop toy_sketches [(''::1'', 6000)] node0
     (quiet_world\<lparr>faults := [Some TTransportException]\<rparr>) =
     (Inr (), node0,
      quiet_world\<lparr> trace := [(EvTransportOpen ''::1'' 6000, Some TTransportException),
                              (EvTransportClose ''::1'' 6000, None),
                              (EvLogDebug, None)] \<rparr>)"
proof -
  let ?W = "quiet_world\<lparr>pull_replies := [[7, 7]]\<rparr>"
  let ?W1 = "quiet_world\<lparr> trace := [(EvTransportOpen ''::1'' 6000, None),
                              (EvRpcPush ''::1'' 6000 [], None),
                              (EvRpcPull ''::1'' 6000, None)],
                   transports := [(''::1'', 6000)] \<rparr>"
  let ?V = "quiet_world\<lparr>faults := [Some TTransportException]\<rparr>"
  let ?V1 = "quiet_world\<lparr> trace := [(EvTransportOpen ''::1'' 6000, Some TTransportException),
                              (EvTransportClose ''::1'' 6000, None),
                              (EvLogDebug, None)] \<rparr>"
  let ?picked = "random_sample [(''::1'', 6000 :: int)]
                   (min (length [(''::1'', 6000 :: int)]) ANTI_ENTROPY_MAX_CLIENTS) (rand_idx ?W)"
  have s: "?picked = ([(''::1'', 6000)], [])"
    by (simp add: ANTI_ENTROPY_MAX_CLIENTS_def quiet_world_def)
  have w: "?W\<lparr>rand_idx := []\<rparr> = ?W"
    by (simp add: quiet_world_def)
  have p1: "fst ?picked = (''::1'', 6000) # []"
    by (simp only: s fst_conv)
  have p2: "anti_entropy toy_sketches ''::1'' 6000 node0 (?W\<lparr>rand_idx := snd ?picked\<rparr>)
            = (Inl DeserializeError, node0, ?W1)"
    by (simp only: s snd_conv w bad_pull_run)
  have d: "DeserializeError \<noteq> TTransportException" by simp
  have c1: "client_work toy_sketches [(''::1'', 6000)] node0 ?W = (Inl DeserializeError, node0, ?W1)"
    using only_transport_errors_are_caught
         [where lib = toy_sketches and host = "''::1''" and port = 6000 and m = node0
            and addrs = "[(''::1'', 6000)]" and rest = "[]" and e = DeserializeError
            and w = ?W and ?m1.0 = node0 and ?w1.0 = ?W1] p1 p2 d
    by blast
  have c2: "client_work_loop toy_sketches [(''::1'', 6000)] node0 ?V = (Inr (), node0, ?V1)"
    using only_transport_errors_are_caught
         [where lib = toy_sketches and host = "''::1''" and port = 6000 and m = node0
            and rest = "[]" and e = TTransportException
            and w = ?V and ?m1.0 = node0 and ?w1.0 = ?V1] unreachable_peer_run
    by simp
  from c1 c2 show ?thesis by (rule conjI)
qed

section \<open>File I/O of a VOLATILE node\<close>

lemma file_calls_snoc:
  "trace w' = trace w @ [(ev, r)] \<Longrightarrow>
     file_calls w' = (if is_file_io ev then file_calls w @ [(ev, r)] else file_calls w)"
  by (simp add: file_calls_def)

lemma file_calls_log_call [simp]:
  "file_calls (log_call ev r w) = (if is_file_io ev then file_calls w @ [(ev, r)] else file_calls w)"
  by (simp add: file_calls_def log_call_def)

lemma prim_fc:
  assumes "prim ev eff w = (r, w')" and "\<not> is_file_io ev"
    and "\<And>w0 r0 w1. eff w0 = (r0, w1) \<Longrightarrow> trace w1 = trace w0"
  shows "file_calls w' = file_calls w"
  using file_calls_snoc[OF prim_trace[OF assms(1,3)]] assms(2) by simp

lemma signal_signal_fc: "signal_signal sig h w = (r, w') \<Longrightarrow> file_calls w' = file_calls w"
  unfolding signal_signal_def by (erule prim_fc) auto

lemma os_kill_fc: "os_kill sig w = (r, w') \<Longrightarrow> file_calls w' = file_calls w"
  unfolding os_kill_def by (erule prim_fc) (auto simp: io_return_def)

lemma thread_start_fc: "thread_start name w = (r, w') \<Longrightarrow> file_calls w' = file_calls w"
  unfolding thread_start_def by (erule prim_fc) (auto simp: io_return_def)

lemma transport_open_fc: "transport_open host port w = (r, w') \<Longrightarrow> file_calls w' = file_calls w"
  unfolding transport_open_def by (erule prim_fc) auto

lemma rpc_push_fc: "rpc_push host port b w = (r, w') \<Longrightarrow> file_calls w' = file_calls w"
  unfolding rpc_push_def by (erule prim_fc) (auto simp: io_return_def)

lemma rpc_pull_fc: "rpc_pull host port w = (r, w') \<Longrightarrow> file_calls w' = file_calls w"
  unfolding rpc_pull_def by (erule prim_fc) (auto split: list.splits)

lemma logging_warning_fc: "logging_warning p w = (r, w') \<Longrightarrow> file_calls w' = file_calls w"
  by (auto simp: logging_warning_def)

lemma transport_close_fc: "transport_close host port w = (r, w') \<Longrightarrow> file_calls w' = file_calls w"
  by (auto simp: transport_close_def file_calls_def log_call_def)

lemma logger_debug_fc: "logger_debug w = (r, w') \<Longrightarrow> file_calls w' = file_calls w"
  by (auto simp: logger_debug_def)

lemma time_sleep_fc [simp]: "file_calls (time_sleep w) = file_calls w"
  by (simp add: time_sleep_def)

lemma ThriftHelper_invoke_fc:
  assumes "ThriftHelper_invoke host port method w = (r, w')"
    and "\<And>w r w'. method w = (r, w') \<Longrightarrow> file_calls w' = file_calls w"
  shows "file_calls w' = file_calls w"
proof -
  let ?first = "io_bind (if (host, port) \<in> set (transports w) then io_return ()
                         else transport_open host port) (\<lambda>_. method)"
  obtain r1 w1 where f: "?first w = (r1, w1)" by force
  have fc1: "file_calls w1 = file_calls w"
    using f
  proof (cases rule: io_bind_cases)
    case (failed e)
    then show ?thesis by (auto simp: io_return_def dest: transport_open_fc split: if_splits)
  next
    case (went_on x w0)
    from went_on(1) have "file_calls w0 = file_calls w"
      by (auto simp: io_return_def dest: transport_open_fc split: if_splits)
    with assms(2)[OF went_on(2)] show ?thesis by simp
  qed
  show ?thesis
  proof (cases r1)
    case (Inl e)
    with assms(1) f fc1 show ?thesis
      by (auto simp: ThriftHelper_invoke_def io_bind_def io_raise_def transport_close_def
            file_calls_def log_call_def split: if_splits)
  next
    case (Inr x)
    with assms(1) f fc1 show ?thesis by (simp add: ThriftHelper_invoke_def)
  qed
qed

lemma best_effort_fc:
  assumes "ThriftHelper_invoke_best_effort_broadcast host port method w = (r, w')"
    and "\<And>w r w'. method w = (r, w') \<Longrightarrow> file_calls w' = file_calls w"
  shows "file_calls w' = file_calls w"
proof -
  obtain r1 w1 where f: "ThriftHelper_invoke host port method w = (r1, w1)" by force
  from ThriftHelper_invoke_fc[OF f assms(2)] have fc1: "file_calls w1 = file_calls w" .
  show ?thesis
  proof (cases r1)
    case (Inl e)
    with assms(1) f fc1 show ?thesis
      by (auto simp: ThriftHelper_invoke_best_effort_broadcast_def io_bind_def io_raise_def
            logger_debug_def split: if_splits)
  next
    case (Inr x)
    with assms(1) f fc1 show ?thesis
      by (simp add: ThriftHelper_invoke_best_effort_broadcast_def)
  qed
qed

lemma client_push_fc: "client_push host port b w = (r, w') \<Longrightarrow> file_calls w' = file_calls w"
  unfolding client_push_def by (erule best_effort_fc) (rule rpc_push_fc)

lemma client_pull_fc: "client_pull host port w = (r, w') \<Longrightarrow> file_calls w' = file_calls w"
  unfolding client_pull_def by (erule best_effort_fc) (rule rpc_pull_fc)

text \<open>Under VOLATILE the sketch engine does not touch the world at all.\<close>

lemma volatile_imerge:
  "durability_level m = VOLATILE \<Longrightarrow>
     imerge lib other m w =
       (Inr (),
        m\<lparr>is_dirty := (is_dirty m \<or> serialize_compact lib (merge lib m other)
                                        \<noteq> serialize_compact lib (sketch m)),
          sketch := merge lib m other\<rparr>, w)"
  by (simp add: imerge_def Let_def)

lemma volatile_update_sketch:
  "durability_level m = VOLATILE \<Longrightarrow>
     update_sketch lib x m w = (Inr (), m\<lparr>sketch := sk_update lib (sketch m) x, is_dirty := True\<rparr>, w)"
  by (simp add: update_sketch_def Let_def)

lemma volatile_push_pull:
  assumes "durability_level m = VOLATILE" and "push_pull lib host port m w = (r, m', w')"
  shows "durability_level m' = VOLATILE \<and> file_calls w' = file_calls w"
proof -
  obtain r1 w1 where p: "client_push host port (serialize_compact lib (sketch m)) w = (r1, w1)"
    by force
  from client_push_fc[OF p] have fc1: "file_calls w1 = file_calls w" .
  show ?thesis
  proof (cases r1)
    case (Inl e)
    with assms p fc1 show ?thesis by (simp add: push_pull_def)
  next
    case (Inr u)
    obtain r2 w2 where q: "client_pull host port w1 = (r2, w2)" by force
    from client_pull_fc[OF q] fc1 have fc2: "file_calls w2 = file_calls w" by simp
    show ?thesis
    proof (cases r2)
      case (Inl e)
      with assms p q Inr fc2 show ?thesis by (simp add: push_pull_def)
    next
      case (Inr b)
      with assms p q \<open>r1 = Inr u\<close> fc2 show ?thesis
        by (cases "deserialize lib b") (auto simp: push_pull_def volatile_imerge)
    qed
  qed
qed

lemma volatile_try_anti_entropy:
  assumes "durability_level m = VOLATILE" and "try_anti_entropy lib host port m w = (r, m', w')"
  shows "durability_level m' = VOLATILE \<and> file_calls w' = file_calls w"
proof -
  obtain r1 m1 w1 where p: "push_pull lib host port m w = (r1, m1, w1)"
    by (cases "push_pull lib host port m w") auto
  from volatile_push_pull[OF assms(1) p] assms(2) p show ?thesis
    by (cases r1) (auto simp: try_anti_entropy_def anti_entropy_def split: if_splits)
qed

lemma volatile_client_work_loop:
  "durability_level m = VOLATILE \<Longrightarrow> client_work_loop lib addrs m w = (r, m', w') \<Longrightarrow>
     durability_level m' = VOLATILE \<and> file_calls w' = file_calls w"
proof (induction addrs arbitrary: m w)
  case Nil
  then show ?case by simp
next
  case (Cons a addrs)
  obtain host port where a: "a = (host, port)" by (cases a)
  obtain r1 m1 w1 where t: "try_anti_entropy lib host port m w = (r1, m1, w1)"
    by (cases "try_anti_entropy lib host port m w") auto
  from volatile_try_anti_entropy[OF Cons.prems(1) t]
  have v: "durability_level m1 = VOLATILE" "file_calls w1 = file_calls w" by simp_all
  show ?case
  proof (cases r1)
    case (Inl e)
    with Cons.prems(2) a t v show ?thesis by simp
  next
    case (Inr b)
    with Cons.prems(2) a t have "client_work_loop lib addrs m1 w1 = (r, m', w')" by simp
    from Cons.IH[OF v(1) this] v(2) show ?thesis by simp
  qed
qed

lemma volatile_client_work:
  assumes "durability_level m = VOLATILE" and "client_work lib addrs m w = (r, m', w')"
  shows "durability_level m' = VOLATILE \<and> file_calls w' = file_calls w"
proof -
  from volatile_client_work_loop[OF assms(1) assms(2)[unfolded client_work_def Let_def]]
  show ?thesis by (simp add: file_calls_def)
qed

lemma volatile_committer_work_periodic:
  "durability_level m = VOLATILE \<Longrightarrow> committer_work_periodic lib n m w = (r, m', w') \<Longrightarrow>
     m' = m \<and> file_calls w' = file_calls w"
proof (induction n arbitrary: w)
  case 0
  then show ?case by (auto split: if_splits)
next
  case (Suc n)
  show ?case
  proof (cases "continue_committer m")
    case True
    from Suc.prems(1) have "committer_work lib m (time_sleep w) = (Inr False, m, time_sleep w)"
      by (intro committer_work_idle) simp
    with Suc.prems(2) True have "committer_work_periodic lib n m (time_sleep w) = (r, m', w')"
      by simp
    from Suc.IH[OF Suc.prems(1) this] show ?thesis by simp
  next
    case False
    with Suc.prems(2) show ?thesis by simp
  qed
qed

lemma reraise_signal_fc:
  assumes "reraise_signal signum h w = (r, w')"
  shows "file_calls w' = file_calls w"
  using assms unfolding reraise_signal_def
  by (auto elim!: io_bind_cases simp: io_return_def dest!: signal_signal_fc os_kill_fc)

lemma volatile_signal_handler:
  assumes "durability_level m = VOLATILE" and "signal_handler lib signum m w = (r, m', w')"
  shows "m' = m \<and> file_calls w' = file_calls w"
proof (cases "map_of (prev_signal_handlers m) signum")
  case None
  with assms show ?thesis by (simp add: signal_handler_def)
next
  case (Some h)
  show ?thesis
  proof (cases "sig_handlers w signum = MeshSignalHandler")
    case True
    obtain r1 w1 where rs: "reraise_signal signum h w = (r1, w1)" by force
    with assms Some True have "m' = m" "w' = w1" by (simp_all add: signal_handler_def)
    with reraise_signal_fc[OF rs] show ?thesis by simp
  next
    case False
    with assms Some show ?thesis by (simp add: signal_handler_def)
  qed
qed

lemma stop_server_fc: "stop_server polls m w = Some w' \<Longrightarrow> file_calls w' = file_calls w"
  by (induction polls arbitrary: w) (auto split: if_splits)

lemma restore_handlers_fc:
  "restore_handlers d w = (r, w') \<Longrightarrow> file_calls w' = file_calls w"
proof (induction d arbitrary: w)
  case Nil
  then show ?case by simp
next
  case (Cons a d)
  obtain sig h where a: "a = (sig, h)" by (cases a)
  show ?case
  proof (cases "sig_handlers w sig = MeshSignalHandler")
    case True
    obtain r1 w1 where s: "signal_signal sig h w = (r1, w1)" by force
    from signal_signal_fc[OF s] have fc: "file_calls w1 = file_calls w" .
    show ?thesis
    proof (cases r1)
      case (Inl e)
      with Cons.prems a True s fc show ?thesis by simp
    next
      case (Inr x)
      with Cons.prems a True s have "restore_handlers d w1 = (r, w')" by simp
      from Cons.IH[OF this] fc show ?thesis by simp
    qed
  next
    case False
    with Cons.prems a have "restore_handlers d w = (r, w')" by simp
    from Cons.IH[OF this] show ?thesis .
  qed
qed

lemma volatile_stop_handler:
  assumes "durability_level m = VOLATILE" and "stop_handler lib polls m w = Some (r, m', w')"
  shows "durability_level m' = VOLATILE \<and> file_calls w' = file_calls w"
proof -
  from assms(2) obtain w1 where ss: "stop_server polls m w = Some w1"
    by (auto simp: stop_handler_def split: option.splits)
  let ?m1 = "m\<lparr>continue_client := False, continue_committer := False\<rparr>"
  obtain r3 w3 where rh: "restore_handlers (prev_signal_handlers ?m1) w1 = (r3, w3)" by force
  with assms ss have "m' = ?m1" "w' = w3"
    by (simp_all add: stop_handler_def Let_def)
  with restore_handlers_fc[OF rh] stop_server_fc[OF ss] assms(1) show ?thesis by simp
qed

text \<open>The load at start: it opens the sketch file for reading, and whatever else it calls is a
  read or the close of that file.\<close>

lemma read_whole_file_calls:
  assumes "read_whole_file f w = (r, w')"
  shows "\<exists>opened rest. trace w' = trace w @ (EvOpenRead f, opened) # rest \<and>
           (\<forall>c \<in> set rest. fst c \<in> {EvRead f, EvClose f})"
  using assms unfolding read_whole_file_def
proof (cases rule: io_bind_cases)
  case (failed e)
  from open_rb_trace[OF failed(1)] show ?thesis by simp
next
  case (went_on x w1)
  from went_on(2) obtain r1 w2 rc where "fd_read f w1 = (r1, w2)" "fd_close f w2 = (rc, w')"
    by (rule io_finally_cases)
  from open_rb_trace[OF went_on(1)] fd_read_trace[OF this(1)] fd_close_trace[OF this(2)]
  show ?thesis by simp
qed

lemma file_calls_of_reads:
  assumes "trace w' = trace w @ (EvOpenRead f, opened) # rest"
    and "\<forall>c \<in> set rest. fst c \<in> {EvRead f, EvClose f}"
  shows "file_calls w' = file_calls w @ (EvOpenRead f, opened) # rest"
proof -
  from assms(2) have "filter (\<lambda>c. is_file_io (fst c)) rest = rest"
    by (induction rest) auto
  with assms(1) show ?thesis by (simp add: file_calls_def)
qed

lemma reader_work_calls:
  assumes "reader_work lib m w = (r, m', w')"
  shows "durability_level m' = durability_level m \<and>
         (case sketch_file m of
            None \<Rightarrow> file_calls w' = file_calls w
          | Some f \<Rightarrow>
              \<exists>opened rest. file_calls w' = file_calls w @ (EvOpenRead f, opened) # rest \<and>
                (\<forall>c \<in> set rest. fst c \<in> {EvRead f, EvClose f}))"
proof (cases "sketch_file m")
  case None
  with assms show ?thesis by (simp add: reader_work_def)
next
  case (Some f)
  obtain r1 w1 where rd: "read_whole_file f w = (r1, w1)" by force
  from read_whole_file_calls[OF rd] obtain opened rest where
    t: "trace w1 = trace w @ (EvOpenRead f, opened) # rest"
    and rest: "\<forall>c \<in> set rest. fst c \<in> {EvRead f, EvClose f}"
    by blast
  from assms Some rd have "w' = w1 \<and> durability_level m' = durability_level m"
    by (cases r1) (auto simp: reader_work_def split: if_splits option.splits)
  with file_calls_of_reads[OF t rest] rest Some show ?thesis by auto
qed

lemma install_handlers_fc:
  "install_handlers sigs m w = (r, m', w') \<Longrightarrow>
     durability_level m' = durability_level m \<and> file_calls w' = file_calls w"
proof (induction sigs arbitrary: m w)
  case Nil
  then show ?case by simp
next
  case (Cons sig sigs)
  obtain r1 w1 where s: "signal_signal sig MeshSignalHandler w = (r1, w1)" by force
  from signal_signal_fc[OF s] have fc: "file_calls w1 = file_calls w" .
  show ?case
  proof (cases r1)
    case (Inl e)
    with Cons.prems s fc show ?thesis by simp
  next
    case (Inr prev)
    with Cons.prems s
    have "install_handlers sigs
            (m\<lparr>prev_signal_handlers := dict_set (prev_signal_handlers m) sig prev\<rparr>) w1
          = (r, m', w')"
      by simp
    from Cons.IH[OF this] fc show ?thesis by simp
  qed
qed

lemma start_one_thread_fc:
  assumes "(if started then (case logging_warning name w of (r, w1) \<Rightarrow> (r, m, w1))
            else (case thread_start name w of
                    (Inl e, w1) \<Rightarrow> (Inl e, m, w1)
                  | (Inr u, w1) \<Rightarrow> (Inr (), m1, w1))) = (r, m', w')"
    and "durability_level m1 = durability_level m"
  shows "durability_level m' = durability_level m \<and> file_calls w' = file_calls w"
proof (cases started)
  case True
  with assms(1) show ?thesis by (auto simp: logging_warning_def)
next
  case False
  obtain r1 w1 where t: "thread_start name w = (r1, w1)" by force
  from thread_start_fc[OF t] have "file_calls w1 = file_calls w" .
  with assms False t show ?thesis by (cases r1) auto
qed

lemma start_threads_fc:
  assumes "start_threads m w = (r, m', w')"
  shows "durability_level m' = durability_level m \<and> file_calls w' = file_calls w"
proof -
  let ?s1 = "if enable_server m
            then (if \<not> server_thread m
                  then (case thread_start ''server'' w of
                          (Inl e, w1) \<Rightarrow> (Inl e, m, w1)
                        | (Inr _, w1) \<Rightarrow> (Inr (), m\<lparr>server_thread := True\<rparr>, w1))
                  else (case logging_warning ''server'' w of (r, w1) \<Rightarrow> (r, m, w1)))
            else (Inr (), m, w)"
  obtain r1 m1 w1 where s1: "?s1 = (r1, m1, w1)" by (cases ?s1) auto
  have v1: "durability_level m1 = durability_level m \<and> file_calls w1 = file_calls w"
  proof (cases "enable_server m")
    case True
    with s1 show ?thesis
      by (intro start_one_thread_fc[where started = "server_thread m" and name = "''server''"
            and ?m1.0 = "m\<lparr>server_thread := True\<rparr>" and r = r1]) (auto split: if_splits)
  next
    case False
    with s1 show ?thesis by simp
  qed
  show ?thesis
  proof (cases r1)
    case (Inl e)
    with assms s1 v1 show ?thesis by (simp add: start_threads_def)
  next
    case (Inr u1)
    let ?s2 = "if enable_client m1
            then (if \<not> client_thread m1
                  then (case thread_start ''client'' w1 of
                          (Inl e, w2) \<Rightarrow> (Inl e, m1, w2)
                        | (Inr _, w2) \<Rightarrow> (Inr (), m1\<lparr>client_thread := True\<rparr>, w2))
                  else (case logging_warning ''client'' w1 of (r, w2) \<Rightarrow> (r, m1, w2)))
            else (Inr (), m1, w1)"
    obtain r2 m2 w2 where s2: "?s2 = (r2, m2, w2)" by (cases ?s2) auto
    have v2: "durability_level m2 = durability_level m1 \<and> file_calls w2 = file_calls w1"
    proof (cases "enable_client m1")
      case True
      with s2 show ?thesis
        by (intro start_one_thread_fc[where started = "client_thread m1" and name = "''client''"
              and ?m1.0 = "m1\<lparr>client_thread := True\<rparr>" and r = r2]) (auto split: if_splits)
    next
      case False
      with s2 show ?thesis by simp
    qed
    show ?thesis
    proof (cases r2)
      case (Inl e)
      with assms s1 s2 \<open>r1 = Inr u1\<close> v1 v2 show ?thesis by (simp add: start_threads_def)
    next
      case (Inr u2)
      let ?s3 = "if enable_committer m2
          then (if \<not> committer_thread m2
                then (case thread_start ''committer'' w2 of
                        (Inl e, w3) \<Rightarrow> (Inl e, m2, w3)
                      | (Inr _, w3) \<Rightarrow> (Inr (), m2\<lparr>committer_thread := True\<rparr>, w3))
                else (case logging_warning ''committer'' w2 of (r, w3) \<Rightarrow> (r, m2, w3)))
          else (Inr (), m2, w2)"
      from assms s1 s2 \<open>r1 = Inr u1\<close> Inr have s3: "?s3 = (r, m', w')"
        by (simp add: start_threads_def)
      have "durability_level m' = durability_level m2 \<and> file_calls w' = file_calls w2"
      proof (cases "enable_committer m2")
        case True
        with s3 show ?thesis
          by (intro start_one_thread_fc[where started = "committer_thread m2"
                and name = "''committer''" and ?m1.0 = "m2\<lparr>committer_thread := True\<rparr>"
                and r = r]) (auto split: if_splits)
      next
        case False
        with s3 show ?thesis by simp
      qed
      with v1 v2 show ?thesis by simp
    qed
  qed
qed

lemma start_handler_calls:
  assumes "start_handler lib m w = (r, m', w')"
  shows "durability_level m' = durability_level m \<and>
         (case sketch_file m of
            None \<Rightarrow> file_calls w' = file_calls w
          | Some f \<Rightarrow>
              \<exists>opened rest. file_calls w' = file_calls w @ (EvOpenRead f, opened) # rest \<and>
                (\<forall>c \<in> set rest. fst c \<in> {EvRead f, EvClose f}))"
proof -
  obtain r1 m1 w1 where rw: "reader_work lib m w = (r1, m1, w1)"
    by (cases "reader_work lib m w") auto
  note a = reader_work_calls[OF rw]
  have rest: "durability_level m' = durability_level m1 \<and> file_calls w' = file_calls w1"
  proof (cases r1)
    case (Inl e)
    with assms rw show ?thesis by (simp add: start_handler_def)
  next
    case (Inr b)
    obtain r2 m2 w2 where ih: "install_handlers handled_signals m1 w1 = (r2, m2, w2)"
      by (cases "install_handlers handled_signals m1 w1") auto
    note b = install_handlers_fc[OF ih]
    show ?thesis
    proof (cases r2)
      case (Inl e)
      with assms rw ih \<open>r1 = Inr b\<close> b show ?thesis by (simp add: start_handler_def)
    next
      case (Inr u)
      with assms rw ih \<open>r1 = Inr b\<close> have "start_threads m2 w2 = (r, m', w')"
        by (simp add: start_handler_def)
      from start_threads_fc[OF this] b show ?thesis by simp
    qed
  qed
  with a show ?thesis by (cases "sketch_file m") simp_all
qed

text \<open>
  C7. The claim as stated fails: the constructor accepts a sketch file with durability
  VOLATILE, and the load at start is gated on the sketch file alone. The node built for
  VOLATILE and \<^verbatim>\<open>/tmp/s1\<close> opens, reads and closes that file when it starts, and takes its
  sketch from it.
\<close>

theorem volatile_node_reads_sketch_file_at_start:
  "AnalyticsMesh_init toy_sketches tmp_fs (args0\<lparr>arg_sketch_file := Some ''/tmp/s1''\<rparr>) =
     Inr (node0\<lparr>sketch_file := Some ''/tmp/s1'', sketch_file_dirname := Some ''/tmp'',
                sketch_file_basename := Some ''s1''\<rparr>) \<and>
   durability_level (node0\<lparr>sketch_file := Some ''/tmp/s1'', sketch_file_dirname := Some ''/tmp'',
                sketch_file_basename := Some ''s1''\<rparr>) = VOLATILE \<and>
   file_calls (snd (snd (start_handler toy_sketches
      (node0\<lparr>sketch_file := Some ''/tmp/s1'', sketch_file_dirname := Some ''/tmp'',
             sketch_file_basename := Some ''s1''\<rparr>)
      (quiet_world\<lparr>files := [''/tmp/s1'' \<mapsto> [4]]\<rparr>)))) =
     [(EvOpenRead ''/tmp/s1'', None), (EvRead ''/tmp/s1'', None), (EvClose ''/tmp/s1'', None)] \<and>
   sketch (fst (snd (start_handler toy_sketches
      (node0\<lparr>sketch_file := Some ''/tmp/s1'', sketch_file_dirname := Some ''/tmp'',
             sketch_file_basename := Some ''s1''\<rparr>)
      (quiet_world\<lparr>files := [''/tmp/s1'' \<mapsto> [4]]\<rparr>)))) = [4]"
  by (simp add: AnalyticsMesh_init_def args0_def tmp_fs_def check_server_address_def
      check_sketch_file_def split_tmp_s1 py_or_def or_dot_def
      start_handler_def reader_work_def read_whole_file_def open_rb_def fd_read_def fd_close_def
      io_bind_def io_finally_def io_return_def prim_def next_fault_def log_call_def
      file_content_def handled_signals_def signal_signal_def start_threads_def thread_start_def
      file_calls_def toy_sketches_def node0_def quiet_world_def)

text \<open>
  C7, amended. For every node with durability VOLATILE: \<open>committer_work\<close> does nothing;
  the periodic committer, the signal handler, the stop handler and the gossip round make no
  call to the file system; \<open>update_sketch\<close>, \<open>imerge\<close>, \<open>push\<close> and \<open>pull\<close> leave the world
  untouched; and all of them leave the durability as it is. The load at start is not gated
  on durability: with no sketch file configured it makes no call to the file system, and
  with one configured it opens that file for reading and makes no other calls to the file
  system than reads of it and its close.
\<close>

theorem volatile_node_file_io:
  assumes "durability_level m = VOLATILE"
  shows "committer_work lib m w = (Inr False, m, w) \<and>
         (case committer_work_periodic lib n m w of
            (r, m', w') \<Rightarrow> m' = m \<and> file_calls w' = file_calls w) \<and>
         (case signal_handler lib signum m w of
            (r, m', w') \<Rightarrow> m' = m \<and> file_calls w' = file_calls w) \<and>
         (case stop_handler lib polls m w of
            None \<Rightarrow> True
          | Some (r, m', w') \<Rightarrow> durability_level m' = VOLATILE \<and> file_calls w' = file_calls w) \<and>
         (case update_sketch lib x m w of
            (r, m', w') \<Rightarrow> durability_level m' = VOLATILE \<and> w' = w) \<and>
         (case imerge lib other m w of
            (r, m', w') \<Rightarrow> durability_level m' = VOLATILE \<and> w' = w) \<and>
         (case push lib bs m w of
            (r, m', w') \<Rightarrow> durability_level m' = VOLATILE \<and> w' = w) \<and>
         pull lib m w = (Inr (serialize_compact lib (sketch m)), m, w) \<and>
         (case client_work lib addrs m w of
            (r, m', w') \<Rightarrow> durability_level m' = VOLATILE \<and> file_calls w' = file_calls w) \<and>
         (case start_handler lib m w of
            (r, m', w') \<Rightarrow>
              durability_level m' = VOLATILE \<and>
              (case sketch_file m of
                 None \<Rightarrow> file_calls w' = file_calls w
               | Some f \<Rightarrow>
                   \<exists>opened rest. file_calls w' = file_calls w @ (EvOpenRead f, opened) # rest \<and>
                     (\<forall>c \<in> set rest. fst c \<in> {EvRead f, EvClose f})))"
proof -
  have 1: "committer_work lib m w = (Inr False, m, w)"
    using assms by (intro committer_work_idle) simp
  have 2: "case committer_work_periodic lib n m w of
            (r, m', w') \<Rightarrow> m' = m \<and> file_calls w' = file_calls w"
  proof -
    obtain r m' w' where s: "committer_work_periodic lib n m w = (r, m', w')"
      by (cases "committer_work_periodic lib n m w") auto
    from volatile_committer_work_periodic[OF assms s] show ?thesis unfolding s by simp
  qed
  have 3: "case signal_handler lib signum m w of
            (r, m', w') \<Rightarrow> m' = m \<and> file_calls w' = file_calls w"
  proof -
    obtain r m' w' where s: "signal_handler lib signum m w = (r, m', w')"
      by (cases "signal_handler lib signum m w") auto
    from volatile_signal_handler[OF assms s] show ?thesis unfolding s by simp
  qed
  have 4: "case stop_handler lib polls m w of
            None \<Rightarrow> True
          | Some (r, m', w') \<Rightarrow> durability_level m' = VOLATILE \<and> file_calls w' = file_calls w"
  proof (cases "stop_handler lib polls m w")
    case None
    then show ?thesis by simp
  next
    case (Some t)
    obtain r m' w' where t: "t = (r, m', w')" by (cases t) auto
    from volatile_stop_handler[OF assms Some[unfolded t]] show ?thesis unfolding Some t by simp
  qed
  have 5: "case update_sketch lib x m w of
            (r, m', w') \<Rightarrow> durability_level m' = VOLATILE \<and> w' = w"
    using assms by (simp add: volatile_update_sketch)
  have 6: "case imerge lib other m w of
            (r, m', w') \<Rightarrow> durability_level m' = VOLATILE \<and> w' = w" for other
    using assms by (simp add: volatile_imerge)
  have 7: "case push lib bs m w of
            (r, m', w') \<Rightarrow> durability_level m' = VOLATILE \<and> w' = w"
    using 6 assms by (cases "deserialize lib bs") (simp_all add: push_def)
  have 8: "pull lib m w = (Inr (serialize_compact lib (sketch m)), m, w)"
    by (simp add: pull_def)
  have 9: "case client_work lib addrs m w of
            (r, m', w') \<Rightarrow> durability_level m' = VOLATILE \<and> file_calls w' = file_calls w"
  proof -
    obtain r m' w' where s: "client_work lib addrs m w = (r, m', w')"
      by (cases "client_work lib addrs m w") auto
    from volatile_client_work[OF assms s] show ?thesis unfolding s by simp
  qed
  have 10: "case start_handler lib m w of
            (r, m', w') \<Rightarrow>
              durability_level m' = VOLATILE \<and>
              (case sketch_file m of
                 None \<Rightarrow> file_calls w' = file_calls w
               | Some f \<Rightarrow>
                   \<exists>opened rest. file_calls w' = file_calls w @ (EvOpenRead f, opened) # rest \<and>
                     (\<forall>c \<in> set rest. fst c \<in> {EvRead f, EvClose f}))"
  proof -
    obtain r m' w' where s: "start_handler lib m w = (r, m', w')"
      by (cases "start_handler lib m w") auto
    from start_handler_calls[OF s] assms show ?thesis unfolding s by simp
  qed
  from 1 2 3 4 5 6[of other] 7 8 9 10 show ?thesis by (intro conjI)
qed

theorem volatile_node_file_io_witness:
  "durability_level node0 = VOLATILE \<and>
   committer_work toy_sketches node0 quiet_world = (Inr False, node0, quiet_world) \<and>
   snd (snd (update_sketch toy_sketches (DInt 3) node0 quiet_world)) = quiet_world \<and>
   file_calls (snd (snd (signal_handler toy_sketches 2 node0 quiet_world))) = [] \<and>
   file_calls (snd (snd (client_work toy_sketches [(''::1'', 6000)] node0 quiet_world))) = [] \<and>
   file_calls (snd (snd (start_handler toy_sketches node0 quiet_world))) = []"
proof -
  have v: "durability_level node0 = VOLATILE" and f: "sketch_file node0 = None"
    by (simp_all add: node0_def)
  have q: "file_calls quiet_world = []" by (simp add: file_calls_def quiet_world_def)
  from volatile_node_file_io
         [OF v, where lib = toy_sketches and w = quiet_world and x = "DInt 3" and signum = 2
            and addrs = "[(''::1'', 6000)]"]
  show ?thesis by (simp add: v f q case_prod_beta)
qed

section \<open>The invariant is kept\<close>

text \<open>No method assigns the configuration, so every node reached from one the constructor
  built satisfies \<open>mesh_inv\<close>.\<close>

lemma same_config_refl [simp]: "same_config m m"
  by (simp add: same_config_def)

lemma same_config_trans: "same_config m m1 \<Longrightarrow> same_config m1 m2 \<Longrightarrow> same_config m m2"
  by (simp add: same_config_def)

lemma same_config_inv: "same_config m m' \<Longrightarrow> mesh_inv m' = mesh_inv m"
  by (simp add: same_config_def mesh_inv_def)

lemma same_config_updates [simp]:
  "same_config m (m'\<lparr>is_dirty := d\<rparr>) = same_config m m'"
  "same_config m (m'\<lparr>sketch := s\<rparr>) = same_config m m'"
  "same_config m (m'\<lparr>prev_signal_handlers := hs\<rparr>) = same_config m m'"
  "same_config m (m'\<lparr>server_thread := b\<rparr>) = same_config m m'"
  "same_config m (m'\<lparr>client_thread := b\<rparr>) = same_config m m'"
  "same_config m (m'\<lparr>committer_thread := b\<rparr>) = same_config m m'"
  "same_config m (m'\<lparr>continue_client := b\<rparr>) = same_config m m'"
  "same_config m (m'\<lparr>continue_committer := b\<rparr>) = same_config m m'"
  by (simp_all add: same_config_def)

lemma committer_work_config: "committer_work lib m w = (r, m', w') \<Longrightarrow> same_config m m'"
  by (drule committer_work_node) auto

lemma discard_committer_config:
  assumes "discard (committer_work lib m w) = (r, m', w')"
  shows "same_config m m'"
proof -
  obtain r0 m0 w0 where cw: "committer_work lib m w = (r0, m0, w0)"
    by (cases "committer_work lib m w") auto
  with assms have "m' = m0" by (cases r0) (simp_all add: discard_def)
  with committer_work_config[OF cw] show ?thesis by simp
qed

lemma update_sketch_config:
  assumes "update_sketch lib x m w = (r, m', w')"
  shows "same_config m m'"
proof (cases "durability_level m = STRICT")
  case True
  with assms
  have "discard (committer_work lib (m\<lparr>sketch := sk_update lib (sketch m) x, is_dirty := True\<rparr>) w)
          = (r, m', w')"
    by (simp add: update_sketch_def Let_def)
  from discard_committer_config[OF this] show ?thesis by (simp add: same_config_def)
next
  case False
  with assms show ?thesis by (auto simp: update_sketch_def Let_def)
qed

lemma imerge_config:
  assumes "imerge lib other m w = (r, m', w')"
  shows "same_config m m'"
proof (cases "durability_level m = STRICT")
  case True
  let ?m1 = "m\<lparr>is_dirty := (is_dirty m \<or> serialize_compact lib (merge lib m other)
                                        \<noteq> serialize_compact lib (sketch m)),
               sketch := merge lib m other\<rparr>"
  from True assms have "discard (committer_work lib ?m1 w) = (r, m', w')"
    by (simp add: imerge_def Let_def)
  from discard_committer_config[OF this] show ?thesis by (simp add: same_config_def)
next
  case False
  with assms show ?thesis by (auto simp: imerge_def Let_def)
qed

lemma push_config: "push lib bs m w = (r, m', w') \<Longrightarrow> same_config m m'"
  by (cases "deserialize lib bs") (auto simp: push_def dest: imerge_config)

lemma reader_work_config:
  assumes "reader_work lib m w = (r, m', w')"
  shows "same_config m m'"
proof (cases "sketch_file m")
  case None
  with assms show ?thesis by (simp add: reader_work_def)
next
  case (Some f)
  obtain r1 w1 where rd: "read_whole_file f w = (r1, w1)" by force
  with assms Some show ?thesis
    by (cases r1) (auto simp: reader_work_def split: if_splits option.splits)
qed

lemma install_handlers_config:
  "install_handlers sigs m w = (r, m', w') \<Longrightarrow> same_config m m'"
proof (induction sigs arbitrary: m w)
  case Nil
  then show ?case by simp
next
  case (Cons sig sigs)
  obtain r1 w1 where s: "signal_signal sig MeshSignalHandler w = (r1, w1)" by force
  show ?case
  proof (cases r1)
    case (Inl e)
    with Cons.prems s show ?thesis by simp
  next
    case (Inr prev)
    with Cons.prems s
    have "install_handlers sigs
            (m\<lparr>prev_signal_handlers := dict_set (prev_signal_handlers m) sig prev\<rparr>) w1
          = (r, m', w')"
      by simp
    from Cons.IH[OF this] show ?thesis by (simp add: same_config_def)
  qed
qed

lemma start_one_thread_config:
  assumes "(if started then (case logging_warning name w of (r, w1) \<Rightarrow> (r, m, w1))
            else (case thread_start name w of
                    (Inl e, w1) \<Rightarrow> (Inl e, m, w1)
                  | (Inr u, w1) \<Rightarrow> (Inr (), m1, w1))) = (r, m', w')"
    and "same_config m m1"
  shows "same_config m m'"
proof (cases started)
  case True
  with assms(1) show ?thesis by (auto simp: logging_warning_def)
next
  case False
  obtain r1 w1 where t: "thread_start name w = (r1, w1)" by force
  with assms False show ?thesis by (cases r1) auto
qed

lemma start_threads_config:
  assumes "start_threads m w = (r, m', w')"
  shows "same_config m m'"
proof -
  let ?s1 = "if enable_server m
            then (if \<not> server_thread m
                  then (case thread_start ''server'' w of
                          (Inl e, w1) \<Rightarrow> (Inl e, m, w1)
                        | (Inr _, w1) \<Rightarrow> (Inr (), m\<lparr>server_thread := True\<rparr>, w1))
                  else (case logging_warning ''server'' w of (r, w1) \<Rightarrow> (r, m, w1)))
            else (Inr (), m, w)"
  obtain r1 m1 w1 where s1: "?s1 = (r1, m1, w1)" by (cases ?s1) auto
  have v1: "same_config m m1"
  proof (cases "enable_server m")
    case True
    with s1 have "(if server_thread m then (case logging_warning ''server'' w of (r, wa) \<Rightarrow> (r, m, wa))
                else (case thread_start ''server'' w of
                        (Inl e, wa) \<Rightarrow> (Inl e, m, wa)
                      | (Inr u, wa) \<Rightarrow> (Inr (), m\<lparr>server_thread := True\<rparr>, wa))) = (r1, m1, w1)"
      by (cases "server_thread m") simp_all
    from start_one_thread_config[OF this] show ?thesis by simp
  next
    case False
    with s1 show ?thesis by simp
  qed
  show ?thesis
  proof (cases r1)
    case (Inl e)
    with assms s1 v1 show ?thesis by (simp add: start_threads_def)
  next
    case (Inr u1)
    let ?s2 = "if enable_client m1
            then (if \<not> client_thread m1
                  then (case thread_start ''client'' w1 of
                          (Inl e, w2) \<Rightarrow> (Inl e, m1, w2)
                        | (Inr _, w2) \<Rightarrow> (Inr (), m1\<lparr>client_thread := True\<rparr>, w2))
                  else (case logging_warning ''client'' w1 of (r, w2) \<Rightarrow> (r, m1, w2)))
            else (Inr (), m1, w1)"
    obtain r2 m2 w2 where s2: "?s2 = (r2, m2, w2)" by (cases ?s2) auto
    have v2: "same_config m1 m2"
    proof (cases "enable_client m1")
      case True
      with s2 have "(if client_thread m1 then (case logging_warning ''client'' w1 of (r, wa) \<Rightarrow> (r, m1, wa))
                else (case thread_start ''client'' w1 of
                        (Inl e, wa) \<Rightarrow> (Inl e, m1, wa)
                      | (Inr u, wa) \<Rightarrow> (Inr (), m1\<lparr>client_thread := True\<rparr>, wa))) = (r2, m2, w2)"
      by (cases "client_thread m1") simp_all
    from start_one_thread_config[OF this] show ?thesis by simp
    next
      case False
      with s2 show ?thesis by simp
    qed
    show ?thesis
    proof (cases r2)
      case (Inl e)
      with assms s1 s2 \<open>r1 = Inr u1\<close> same_config_trans[OF v1 v2] show ?thesis
        by (simp add: start_threads_def)
    next
      case (Inr u2)
      let ?s3 = "if enable_committer m2
          then (if \<not> committer_thread m2
                then (case thread_start ''committer'' w2 of
                        (Inl e, w3) \<Rightarrow> (Inl e, m2, w3)
                      | (Inr _, w3) \<Rightarrow> (Inr (), m2\<lparr>committer_thread := True\<rparr>, w3))
                else (case logging_warning ''committer'' w2 of (r, w3) \<Rightarrow> (r, m2, w3)))
          else (Inr (), m2, w2)"
      from assms s1 s2 \<open>r1 = Inr u1\<close> Inr have s3: "?s3 = (r, m', w')"
        by (simp add: start_threads_def)
      have "same_config m2 m'"
      proof (cases "enable_committer m2")
        case True
        with s3 have "(if committer_thread m2 then (case logging_warning ''committer'' w2 of (r, wa) \<Rightarrow> (r, m2, wa))
                else (case thread_start ''committer'' w2 of
                        (Inl e, wa) \<Rightarrow> (Inl e, m2, wa)
                      | (Inr u, wa) \<Rightarrow> (Inr (), m2\<lparr>committer_thread := True\<rparr>, wa))) = (r, m', w')"
      by (cases "committer_thread m2") simp_all
    from start_one_thread_config[OF this] show ?thesis by simp
      next
        case False
        with s3 show ?thesis by simp
      qed
      with v1 v2 show ?thesis by (blast intro: same_config_trans)
    qed
  qed
qed

lemma start_handler_config:
  assumes "start_handler lib m w = (r, m', w')"
  shows "same_config m m'"
proof -
  obtain r1 m1 w1 where rw: "reader_work lib m w = (r1, m1, w1)"
    by (cases "reader_work lib m w") auto
  note a = reader_work_config[OF rw]
  show ?thesis
  proof (cases r1)
    case (Inl e)
    with assms rw a show ?thesis by (simp add: start_handler_def)
  next
    case (Inr b)
    obtain r2 m2 w2 where ih: "install_handlers handled_signals m1 w1 = (r2, m2, w2)"
      by (cases "install_handlers handled_signals m1 w1") auto
    note b = same_config_trans[OF a install_handlers_config[OF ih]]
    show ?thesis
    proof (cases r2)
      case (Inl e)
      with assms rw ih \<open>r1 = Inr b\<close> b show ?thesis by (simp add: start_handler_def)
    next
      case (Inr u)
      with assms rw ih \<open>r1 = Inr b\<close> have "start_threads m2 w2 = (r, m', w')"
        by (simp add: start_handler_def)
      from same_config_trans[OF b start_threads_config[OF this]] show ?thesis .
    qed
  qed
qed

lemma signal_handler_config:
  assumes "signal_handler lib signum m w = (r, m', w')"
  shows "same_config m m'"
proof -
  let ?first = "if durability_level m = DELAYED then discard (committer_work lib m w)
                else (Inr (), m, w)"
  obtain r1 m1 w1 where f: "?first = (r1, m1, w1)" by (cases ?first) auto
  have c1: "same_config m m1"
    using f by (auto dest: discard_committer_config split: if_splits)
  show ?thesis
  proof (cases r1)
    case (Inl e)
    with assms f c1 show ?thesis by (simp add: signal_handler_def)
  next
    case (Inr u)
    with assms f have "m' = m1"
      by (auto simp: signal_handler_def split: option.splits if_splits prod.splits)
    with c1 show ?thesis by simp
  qed
qed

lemma stop_handler_config:
  assumes "stop_handler lib polls m w = Some (r, m', w')"
  shows "same_config m m'"
proof -
  from assms obtain w1 where ss: "stop_server polls m w = Some w1"
    by (auto simp: stop_handler_def split: option.splits)
  let ?m1 = "m\<lparr>continue_client := False, continue_committer := False\<rparr>"
  let ?first = "if durability_level ?m1 = DELAYED then discard (committer_work lib ?m1 w1)
                else (Inr (), ?m1, w1)"
  obtain r2 m2 w2 where f: "?first = (r2, m2, w2)" by (cases ?first) auto
  have c: "same_config ?m1 m2"
    using f by (auto dest: discard_committer_config split: if_splits)
  have "m' = m2"
  proof (cases r2)
    case (Inl e)
    with assms ss f show ?thesis by (simp add: stop_handler_def Let_def)
  next
    case (Inr u)
    with assms ss f show ?thesis
      by (auto simp: stop_handler_def Let_def split: prod.splits)
  qed
  with c show ?thesis by (simp add: same_config_def)
qed

lemma push_pull_config:
  assumes "push_pull lib host port m w = (r, m', w')"
  shows "same_config m m'"
proof -
  obtain r1 w1 where p: "client_push host port (serialize_compact lib (sketch m)) w = (r1, w1)"
    by force
  show ?thesis
  proof (cases r1)
    case (Inl e)
    with assms p show ?thesis by (simp add: push_pull_def)
  next
    case (Inr u)
    obtain r2 w2 where q: "client_pull host port w1 = (r2, w2)" by force
    show ?thesis
    proof (cases r2)
      case (Inl e)
      with assms p q Inr show ?thesis by (simp add: push_pull_def)
    next
      case (Inr b)
      with assms p q \<open>r1 = Inr u\<close> show ?thesis
        by (cases "deserialize lib b") (auto simp: push_pull_def dest: imerge_config)
    qed
  qed
qed

lemma client_work_loop_config:
  "client_work_loop lib addrs m w = (r, m', w') \<Longrightarrow> same_config m m'"
proof (induction addrs arbitrary: m w)
  case Nil
  then show ?case by simp
next
  case (Cons a addrs)
  obtain host port where a: "a = (host, port)" by (cases a)
  obtain r0 m0 w0 where p: "push_pull lib host port m w = (r0, m0, w0)"
    by (cases "push_pull lib host port m w") auto
  note c0 = push_pull_config[OF p]
  show ?case
  proof (cases "\<exists>e. r0 = Inl e \<and> e \<noteq> TTransportException")
    case True
    with Cons.prems a p c0 show ?thesis
      by (auto simp: try_anti_entropy_def anti_entropy_def)
  next
    case False
    with Cons.prems a p have "client_work_loop lib addrs m0 w0 = (r, m', w')"
      by (cases r0) (auto simp: try_anti_entropy_def anti_entropy_def split: if_splits)
    from same_config_trans[OF c0 Cons.IH[OF this]] show ?thesis .
  qed
qed

lemma client_work_config: "client_work lib addrs m w = (r, m', w') \<Longrightarrow> same_config m m'"
  unfolding client_work_def Let_def by (rule client_work_loop_config)

lemma committer_work_periodic_config:
  "committer_work_periodic lib n m w = (r, m', w') \<Longrightarrow> same_config m m'"
proof (induction n arbitrary: m w)
  case 0
  then show ?case by (auto split: if_splits)
next
  case (Suc n)
  show ?case
  proof (cases "continue_committer m")
    case True
    obtain r1 m1 w1 where cw: "committer_work lib m (time_sleep w) = (r1, m1, w1)"
      by (cases "committer_work lib m (time_sleep w)") auto
    note c1 = committer_work_config[OF cw]
    show ?thesis
    proof (cases r1)
      case (Inl e)
      with Suc.prems True cw c1 show ?thesis by simp
    next
      case (Inr b)
      with Suc.prems True cw have "committer_work_periodic lib n m1 w1 = (r, m', w')" by simp
      from same_config_trans[OF c1 Suc.IH[OF this]] show ?thesis .
    qed
  next
    case False
    with Suc.prems show ?thesis by simp
  qed
qed

end
